theory Spec2Isabelle
  imports Complex_Main "HOL-Library.Product_Lexorder" "HOL-Library.Log_Nat"
begin

section \<open>Time values\<close>

text \<open>
  The index of the primary table and of the weather table is a \<open>datetime64[ns]\<close> array: a count
  of nanoseconds, modelled as an unbounded \<open>int\<close> (the 64-bit range is not reached by calendar
  dates and is left out).  The indices of the two tables hold no \<open>NaT\<close>.  A threshold
  \<open>np.timedelta64(m, 'm')\<close> is compared with differences of such values after conversion to
  nanoseconds.
\<close>

definition ns_per_minute :: int where
  "ns_per_minute = 60000000000"

definition timedelta64_m :: "int \<Rightarrow> int" where
  "timedelta64_m m = m * ns_per_minute"

section \<open>Interval segmenter\<close>

text \<open>\<open>np.diff(a)\<close>: \<open>out[i] = a[i+1] - a[i]\<close>, empty for fewer than two entries.\<close>

fun np_diff :: "int list \<Rightarrow> int list" where
  "np_diff (x # y # zs) = (y - x) # np_diff (y # zs)"
| "np_diff _ = []"

text \<open>\<open>np.nonzero(mask)\<close> on a one-dimensional boolean array: the positions holding True,
  increasing.\<close>

definition np_nonzero :: "bool list \<Rightarrow> nat list" where
  "np_nonzero bs = filter (\<lambda>i. bs ! i) [0..<length bs]"

text \<open>
  \<open>comp_snapshot_indices\<close>: \<open>np.insert(indices, 0, 0)\<close> is the column of starts,
  \<open>np.append(indices, len(index))\<close> the column of ends, \<open>np.column_stack\<close> pairs them row by row.
\<close>

definition comp_snapshot_indices :: "int list \<Rightarrow> int \<Rightarrow> (nat \<times> nat) list" where
  "comp_snapshot_indices index snapshot_minutes =
     (let indices = np_nonzero (map (\<lambda>d. d \<ge> timedelta64_m snapshot_minutes) (np_diff index))
      in zip (0 # indices) (indices @ [length index]))"

text \<open>
  The segmentation property in the words of the specification, for one snapshot \<open>(s, e)\<close>:
  every gap between neighbouring readings inside \<open>[s, e)\<close> is below the threshold, and the gap
  in front of \<open>s\<close> and the gap behind \<open>e - 1\<close>, where they exist, reach it.
\<close>

definition intra_gaps_below :: "int list \<Rightarrow> int \<Rightarrow> nat \<times> nat \<Rightarrow> bool" where
  "intra_gaps_below index snapshot_minutes se =
     list_all (\<lambda>i. index ! Suc i - index ! i < timedelta64_m snapshot_minutes)
       [fst se..<snd se - 1]"

definition boundary_gaps_reach :: "int list \<Rightarrow> int \<Rightarrow> nat \<times> nat \<Rightarrow> bool" where
  "boundary_gaps_reach index snapshot_minutes se =
     ((fst se = 0 \<or> index ! fst se - index ! (fst se - 1) \<ge> timedelta64_m snapshot_minutes) \<and>
      (length index \<le> snd se \<or>
       index ! snd se - index ! (snd se - 1) \<ge> timedelta64_m snapshot_minutes))"

section \<open>Float64 arithmetic\<close>

text \<open>
  The value columns of the primary table are \<open>float64\<close>.  A finite \<open>float64\<close> number is given
  by its exact rational value, and an arithmetic operation returns the exact result rounded
  to the nearest number with a significand of 53 bits, ties to the even significand, with
  the fixed spacing \<open>2 powi (- 1074)\<close> in the subnormal range.  Infinities and \<open>NaN\<close> (overflow, missing
  values) are not modelled: the table holds finite numbers and sums stay in range.
\<close>

text \<open>The binary exponent of a positive number: \<open>2 powi ilog2 x \<le> x < 2 powi (ilog2 x + 1)\<close>.\<close>

definition ilog2 :: "rat \<Rightarrow> int" where
  "ilog2 x =
     (let (p, q) = quotient_of x; e = bitlen p - bitlen q
      in if 2 powi e \<le> x then e else e - 1)"

definition round_half_even :: "rat \<Rightarrow> int" where
  "round_half_even q =
     (let f = \<lfloor>q\<rfloor>; d = q - of_int f
      in if d < 1 / 2 then f else if 1 / 2 < d then f + 1 else if even f then f else f + 1)"

definition round64 :: "rat \<Rightarrow> rat" where
  "round64 x =
     (if x = 0 then 0
      else let s = max (ilog2 \<bar>x\<bar> - 52) (- 1074)
           in sgn x * of_int (round_half_even (\<bar>x\<bar> / 2 powi s)) * 2 powi s)"

definition float_add :: "rat \<Rightarrow> rat \<Rightarrow> rat" where
  "float_add x y = round64 (x + y)"

definition float_sub :: "rat \<Rightarrow> rat \<Rightarrow> rat" where
  "float_sub x y = round64 (x - y)"

definition float_div :: "rat \<Rightarrow> rat \<Rightarrow> rat" where
  "float_div x y = round64 (x / y)"

section \<open>Primary table and duplicate averager\<close>

text \<open>
  The primary table is a pandas frame indexed by time with the columns \<open>pm2_5\<close>,
  \<open>gpsLongitude\<close> and \<open>gpsLatitude\<close>.  Its rows are modelled one by one, each row carrying its
  index value, next to the name of the index, which may be missing.  \<open>average_duplicates\<close>
  adds one more column, named after the joined column names and holding the tuple of the
  selected columns; a row that has no such column has \<open>None\<close> there.
\<close>

record reading =
  timestamp :: int
  pm2_5 :: rat
  gpsLongitude :: rat
  gpsLatitude :: rat
  temp_col :: "(rat \<times> rat) option"

record dataframe =
  index_name :: "string option"
  rows :: "reading list"

datatype error = IndexError | ValueError | KeyError | ZeroDivisionError

text \<open>
  \<open>average_duplicates\<close> is called in one place, with
  \<open>columns=['gpsLatitude', 'gpsLongitude']\<close>; it is modelled for that list, whose joined name
  \<open>'gpsLatitude, gpsLongitude'\<close> is the name of no other column.
  \<open>tuple(df[columns].values[i])\<close> is the pair of latitude and longitude of row \<open>i\<close>.
\<close>

definition temp_col_name :: string where
  "temp_col_name = ''gpsLatitude, gpsLongitude''"

definition row_tuple :: "reading \<Rightarrow> rat \<times> rat" where
  "row_tuple r = (gpsLatitude r, gpsLongitude r)"

text \<open>The grouping key \<open>[df.index, temp_col_name]\<close> of one row, once the tuple column is set.\<close>

definition row_key :: "reading \<Rightarrow> int \<times> rat \<times> rat" where
  "row_key r = (timestamp r, row_tuple r)"

text \<open>
  The mean of one column over one group, as \<open>groupby(...).mean()\<close> computes it: a compensated
  (Kahan) sum, every operation rounded, divided by the number of values.  A group has at
  least one row.
\<close>

fun kahan_sum :: "rat list \<Rightarrow> rat \<times> rat \<Rightarrow> rat \<times> rat" where
  "kahan_sum [] (sumx, compensation) = (sumx, compensation)"
| "kahan_sum (val # vals) (sumx, compensation) =
     (let y = float_sub val compensation; t = float_add sumx y
      in kahan_sum vals (t, float_sub (float_sub t sumx) y))"

definition mean :: "rat list \<Rightarrow> rat" where
  "mean xs = float_div (fst (kahan_sum xs (0, 0))) (of_nat (length xs))"

text \<open>
  One row of \<open>groupby(...).mean().reset_index().drop(columns=temp_col_name).set_index(index_name)\<close>:
  the index value of the group, the mean of every value column, no tuple column.
\<close>

definition mean_row :: "int \<Rightarrow> reading list \<Rightarrow> reading" where
  "mean_row t rs =
     \<lparr>timestamp = t, pm2_5 = mean (map pm2_5 rs), gpsLongitude = mean (map gpsLongitude rs),
      gpsLatitude = mean (map gpsLatitude rs), temp_col = None\<rparr>"

text \<open>\<open>groupby\<close> sorts the distinct keys; tuples compare lexicographically.\<close>

definition groupby_mean :: "reading list \<Rightarrow> reading list" where
  "groupby_mean rs =
     map (\<lambda>k. mean_row (fst k) (filter (\<lambda>r. row_key r = k) rs))
       (sort (remdups (map row_key rs)))"

text \<open>
  The end of the chain, \<open>reset_index()\<close> and \<open>set_index(index_name)\<close>, needs the name of the
  index: without a name \<open>set_index(None)\<close> raises \<open>KeyError\<close>, and a name that is also the name
  of a column cannot be inserted as a column (\<open>ValueError\<close>).
\<close>

definition index_name_error :: "string option \<Rightarrow> error option" where
  "index_name_error name =
     (case name of None \<Rightarrow> Some KeyError
      | Some n \<Rightarrow>
          if n \<in> set [''pm2_5'', ''gpsLongitude'', ''gpsLatitude'', temp_col_name]
          then Some ValueError else None)"

text \<open>
  \<open>average_duplicates\<close> writes the tuple column into the frame it is given and then returns a
  new frame or raises: the result is the pair of the frame as it is left behind and the
  frame returned or the error.
\<close>

definition average_duplicates :: "dataframe \<Rightarrow> dataframe \<times> (error + dataframe)" where
  "average_duplicates df =
     (let df' = df\<lparr>rows := map (\<lambda>r. r\<lparr>temp_col := Some (row_tuple r)\<rparr>) (rows df)\<rparr>
      in (df', case index_name_error (index_name df) of Some e \<Rightarrow> Inl e
               | None \<Rightarrow> Inr \<lparr>index_name = index_name df, rows = groupby_mean (rows df')\<rparr>))"

text \<open>
  \<open>index.floor(f'{snapshot_minutes}min')\<close> subtracts from every index value its remainder
  modulo the duration in nanoseconds, a remainder with the sign of the duration; a duration
  of zero raises \<open>ZeroDivisionError\<close>.
\<close>

definition index_floor :: "int \<Rightarrow> int \<Rightarrow> int" where
  "index_floor snapshot_minutes t = t - t mod timedelta64_m snapshot_minutes"

text \<open>
  \<open>prep_pm_gps\<close> changes the caller's frame in place: \<open>set_index(..., inplace=True)\<close>, then the
  call of \<open>average_duplicates\<close>, whose returned frame is dropped and whose error, if any, is
  passed on.  The value is the caller's frame afterwards and the error raised, if any.
\<close>

definition prep_pm_gps :: "dataframe \<Rightarrow> int \<Rightarrow> dataframe \<times> error option" where
  "prep_pm_gps pm_gps snapshot_minutes =
     (if snapshot_minutes = 0 then (pm_gps, Some ZeroDivisionError)
      else
        let floored =
              pm_gps\<lparr>rows := map (\<lambda>r. r\<lparr>timestamp := index_floor snapshot_minutes (timestamp r)\<rparr>)
                                  (rows pm_gps)\<rparr>
        in case average_duplicates floored of
             (df', Inl e) \<Rightarrow> (df', Some e)
           | (df', Inr averaged) \<Rightarrow> (df', None))"

section \<open>Indexing and slicing\<close>

text \<open>
  \<open>arr[i]\<close> for an integer \<open>i\<close>, on a Python list and on a numpy array alike: a negative
  index counts from the end, an index outside \<open>[-n, n)\<close> raises \<open>IndexError\<close>.
\<close>

definition np_get :: "'a list \<Rightarrow> int \<Rightarrow> error + 'a" where
  "np_get arr i =
     (let n = int (length arr); j = (if i < 0 then i + n else i)
      in if 0 \<le> j \<and> j < n then Inr (arr ! nat j) else Inl IndexError)"

text \<open>An elementwise operation that may raise: the first error ends it.\<close>

fun map_result :: "('a \<Rightarrow> error + 'b) \<Rightarrow> 'a list \<Rightarrow> error + 'b list" where
  "map_result f [] = Inr []"
| "map_result f (x # xs) =
     (case f x of Inl e \<Rightarrow> Inl e
      | Inr y \<Rightarrow> (case map_result f xs of Inl e \<Rightarrow> Inl e | Inr ys \<Rightarrow> Inr (y # ys)))"

text \<open>\<open>arr[idx]\<close> for an integer array \<open>idx\<close>.\<close>

definition np_take :: "'a list \<Rightarrow> int list \<Rightarrow> error + 'a list" where
  "np_take arr idx = map_result (np_get arr) idx"

text \<open>\<open>arr[start:end]\<close> for bounds that are not negative.\<close>

definition py_slice :: "nat \<Rightarrow> nat \<Rightarrow> 'a list \<Rightarrow> 'a list" where
  "py_slice start end xs = take (end - start) (drop start xs)"

text \<open>\<open>arr[mask]\<close> for a boolean array of the same length.\<close>

definition np_mask :: "'a list \<Rightarrow> bool list \<Rightarrow> 'a list" where
  "np_mask arr bs = map fst (filter snd (zip arr bs))"

section \<open>Representative timestamps\<close>

text \<open>
  A computed \<open>datetime64\<close> or \<open>timedelta64\<close> value may be \<open>NaT\<close>, modelled as \<open>None\<close>.
  \<open>timestamps[start:end].view('i8').mean()\<close> is \<open>nan\<close> on an empty slice, which
  \<open>np.fromiter(..., dtype='datetime64[ns]')\<close> stores as \<open>NaT\<close>; otherwise the mean is
  converted by truncation.  The rounding of the float64 mean is not modelled: the value is
  the exact mean, truncated toward zero.
\<close>

definition slice_mean :: "int list \<Rightarrow> int option" where
  "slice_mean xs =
     (if xs = [] then None
      else let s = sum_list xs; n = int (length xs)
           in Some (if 0 \<le> s then s div n else - ((- s) div n)))"

definition comp_snapshot_timestamps :: "(nat \<times> nat) list \<Rightarrow> int list \<Rightarrow> int option list" where
  "comp_snapshot_timestamps snapshot_indices timestamps =
     map (\<lambda>(start, end). slice_mean (py_slice start end timestamps)) snapshot_indices"

section \<open>Nearest-weather matcher\<close>

text \<open>The order numpy sorts and searches \<open>datetime64\<close> by: \<open>NaT\<close> is behind every time.\<close>

definition datetime_less :: "int option \<Rightarrow> int option \<Rightarrow> bool" where
  "datetime_less a b =
     (case a of None \<Rightarrow> False | Some x \<Rightarrow> (case b of None \<Rightarrow> True | Some y \<Rightarrow> x < y))"

text \<open>
  \<open>np.searchsorted(arr, v)\<close> with the default \<open>side='left'\<close>: a binary search for the first
  position whose entry is not below \<open>v\<close>.
\<close>

function bisect_left :: "int list \<Rightarrow> int option \<Rightarrow> nat \<Rightarrow> nat \<Rightarrow> nat" where
  "bisect_left arr v lo hi =
     (if lo < hi
      then (if datetime_less (Some (arr ! (lo + (hi - lo) div 2))) v
            then bisect_left arr v (lo + (hi - lo) div 2 + 1) hi
            else bisect_left arr v lo (lo + (hi - lo) div 2))
      else lo)"
  by pat_completeness auto
termination
  by (relation "measure (\<lambda>(arr, v, lo, hi). hi - lo)") auto

declare bisect_left.simps [simp del]

definition searchsorted :: "int list \<Rightarrow> int option \<Rightarrow> nat" where
  "searchsorted arr v = bisect_left arr v 0 (length arr)"

text \<open>
  \<open>abs(a - v)\<close> of a time and a possibly missing time.  The difference of two \<open>datetime64[ns]\<close>
  values is computed in 64 bits and wraps around; the result \<open>- (2 ^ 63)\<close> is the bit pattern of
  \<open>NaT\<close>.  The comparisons of \<open>timedelta64\<close> values are False as soon as one side is \<open>NaT\<close>.
\<close>

definition wrap64 :: "int \<Rightarrow> int" where
  "wrap64 z = (z + 2 ^ 63) mod 2 ^ 64 - 2 ^ 63"

definition abs_diff :: "int \<Rightarrow> int option \<Rightarrow> int option" where
  "abs_diff a v =
     (case v of None \<Rightarrow> None
      | Some x \<Rightarrow> (let d = wrap64 (a - x) in if d = - (2 ^ 63) then None else Some \<bar>d\<bar>))"

definition timedelta_less :: "int option \<Rightarrow> int option \<Rightarrow> bool" where
  "timedelta_less a b =
     (case a of None \<Rightarrow> False | Some x \<Rightarrow> (case b of None \<Rightarrow> False | Some y \<Rightarrow> x < y))"

definition timedelta_le :: "int option \<Rightarrow> int option \<Rightarrow> bool" where
  "timedelta_le a b =
     (case a of None \<Rightarrow> False | Some x \<Rightarrow> (case b of None \<Rightarrow> False | Some y \<Rightarrow> x \<le> y))"

text \<open>
  \<open>find_nearest\<close> for one entry of \<open>vals\<close>:
  \<open>idx - (abs(arr[idx-1] - v) < abs(arr[idx % len(arr)] - v))\<close>.
\<close>

definition find_nearest1 :: "int list \<Rightarrow> int option \<Rightarrow> error + int" where
  "find_nearest1 arr v =
     (let idx = int (searchsorted arr v)
      in case np_get arr (idx - 1) of Inl e \<Rightarrow> Inl e
         | Inr left \<Rightarrow>
             (case np_get arr (idx mod int (length arr)) of Inl e \<Rightarrow> Inl e
              | Inr right \<Rightarrow>
                  Inr (idx - (if timedelta_less (abs_diff left v) (abs_diff right v)
                              then 1 else 0))))"

definition find_nearest :: "int list \<Rightarrow> int option list \<Rightarrow> error + int list" where
  "find_nearest arr vals = map_result (find_nearest1 arr) vals"

text \<open>
  \<open>weather_available_mask\<close>; \<open>np.timedelta64(None, 'm')\<close> is \<open>NaT\<close>.
\<close>

definition weather_available_mask ::
  "int list \<Rightarrow> int option list \<Rightarrow> int list \<Rightarrow> int option \<Rightarrow> error + bool list" where
  "weather_available_mask weather_idx timestamps weather_index_values minutes_to_weather =
     (case np_take weather_index_values weather_idx of Inl e \<Rightarrow> Inl e
      | Inr ws \<Rightarrow>
          Inr (map (\<lambda>(w, t). timedelta_le (abs_diff w t)
                                (map_option timedelta64_m minutes_to_weather))
                 (zip ws timestamps)))"

text \<open>
  \<open>remove_snapshots_without_weather\<close>: the three arrays \<open>self.pm_gps_idx\<close>,
  \<open>self.timestamps\<close> and \<open>self.weather_idx\<close> go in and come out.
\<close>

definition remove_snapshots_without_weather ::
  "(nat \<times> nat) list \<Rightarrow> int option list \<Rightarrow> int list \<Rightarrow> int list \<Rightarrow> int option
     \<Rightarrow> error + ((nat \<times> nat) list \<times> int option list \<times> int list)" where
  "remove_snapshots_without_weather pm_gps_idx timestamps weather_idx weather_index_values
       minutes_to_weather =
     (case weather_available_mask weather_idx timestamps weather_index_values minutes_to_weather of
        Inl e \<Rightarrow> Inl e
      | Inr bs \<Rightarrow> Inr (np_mask pm_gps_idx bs, np_mask timestamps bs, np_mask weather_idx bs))"

definition map_timestamps_to_features ::
  "int option list \<Rightarrow> (int option \<Rightarrow> error + rat list) \<Rightarrow> error + rat list list" where
  "map_timestamps_to_features timestamps f = map_result f timestamps"

section \<open>Batch segmenter\<close>

definition split_snapshot_indices_to_batches ::
  "int list \<Rightarrow> (nat \<times> nat) list \<Rightarrow> int \<Rightarrow> error + nat list" where
  "split_snapshot_indices_to_batches timestamps snapshot_indices snapshot_minutes =
     (case np_take timestamps (map (\<lambda>se. int (fst se)) (tl snapshot_indices)) of Inl e \<Rightarrow> Inl e
      | Inr starts \<Rightarrow>
          (case np_take timestamps (map (\<lambda>se. int (snd se) - 1) (butlast snapshot_indices)) of
             Inl e \<Rightarrow> Inl e
           | Inr ends \<Rightarrow>
               Inr (np_nonzero (map (\<lambda>(s, e). s - e > timedelta64_m snapshot_minutes)
                                  (zip starts ends)))))"

text \<open>\<open>np.split(ary, indices)\<close>: the pieces \<open>ary[0:i1], ary[i1:i2], ..., ary[ik:]\<close>.\<close>

definition np_split :: "'a list \<Rightarrow> nat list \<Rightarrow> 'a list list" where
  "np_split ary indices =
     map (\<lambda>(a, b). py_slice a b ary) (zip (0 # indices) (indices @ [length ary]))"

definition find_indices_of_unit_batches :: "'a list list \<Rightarrow> nat list" where
  "find_indices_of_unit_batches batch_indices =
     filter (\<lambda>i. length (batch_indices ! i) \<le> 1) [0..<length batch_indices]"

text \<open>\<open>del arr[idx]\<close> on a list.\<close>

definition del_at :: "'a list \<Rightarrow> nat \<Rightarrow> error + 'a list" where
  "del_at arr idx =
     (if idx < length arr then Inr (take idx arr @ drop (Suc idx) arr) else Inl IndexError)"

fun delete_loop :: "'a list \<Rightarrow> nat list \<Rightarrow> error + 'a list" where
  "delete_loop arr [] = Inr arr"
| "delete_loop arr (idx # rest) =
     (case del_at arr idx of Inl e \<Rightarrow> Inl e | Inr arr' \<Rightarrow> delete_loop arr' rest)"

text \<open>\<open>delete_indices\<close>: \<open>for idx in sorted(indices, reverse=True): del arr[idx]\<close>.\<close>

definition delete_indices :: "'a list \<Rightarrow> nat list \<Rightarrow> error + 'a list" where
  "delete_indices arr indices = delete_loop arr (rev (sort indices))"

section \<open>Dataset container\<close>

text \<open>
  The weather table: one row per weather reading, its index value and its feature vector.
\<close>

type_synonym weather_frame = "(int \<times> rat list) list"

text \<open>
  The attributes of a constructed \<open>Dataset\<close>.  After \<open>split_to_batches\<close> the attributes
  \<open>pm_gps_idx\<close>, \<open>timestamps\<close>, \<open>time_values\<close> and \<open>weather_idx\<close> are Python lists with one
  array per batch.  \<open>weather_idx\<close> is only assigned when a weather table is given; it is
  read only under the test \<open>weather_values is not None\<close> and is the empty list otherwise.
\<close>

record Dataset =
  pm_values :: "rat list"
  gps_values :: "(rat \<times> rat) list"
  weather_values :: "rat list list option"
  time_values :: "rat list list list option"
  pm_gps_idx :: "(nat \<times> nat) list list"
  timestamps :: "int option list list"
  weather_idx :: "int list list"

text \<open>\<open>remove_unit_batches\<close>, on the attributes that \<open>split_to_batches\<close> has just set.\<close>

definition remove_unit_batches :: "Dataset \<Rightarrow> error + Dataset" where
  "remove_unit_batches self =
     (let idx = find_indices_of_unit_batches (pm_gps_idx self)
      in case delete_indices (pm_gps_idx self) idx of Inl e \<Rightarrow> Inl e
         | Inr pm_gps_idx' \<Rightarrow>
         (case delete_indices (timestamps self) idx of Inl e \<Rightarrow> Inl e
          | Inr timestamps' \<Rightarrow>
          (case (case time_values self of None \<Rightarrow> Inr None
                 | Some tv \<Rightarrow> map_sum id Some (delete_indices tv idx)) of Inl e \<Rightarrow> Inl e
           | Inr time_values' \<Rightarrow>
           (case (if weather_values self \<noteq> None then delete_indices (weather_idx self) idx
                  else Inr (weather_idx self)) of Inl e \<Rightarrow> Inl e
            | Inr weather_idx' \<Rightarrow>
                Inr (self\<lparr>pm_gps_idx := pm_gps_idx', timestamps := timestamps',
                          time_values := time_values', weather_idx := weather_idx'\<rparr>)))))"

text \<open>
  \<open>split_to_batches\<close>.  Before the call the four attributes are flat arrays, one entry per
  snapshot; they are the arguments here, next to the value attributes.
\<close>

definition split_to_batches ::
  "rat list \<Rightarrow> (rat \<times> rat) list \<Rightarrow> rat list list option \<Rightarrow> rat list list option
     \<Rightarrow> (nat \<times> nat) list \<Rightarrow> int option list \<Rightarrow> int list
     \<Rightarrow> int list \<Rightarrow> int \<Rightarrow> error + Dataset" where
  "split_to_batches pm_vals gps_vals weather_vals time_vals pm_gps_idx0 timestamps0 weather_idx0
       pm_gps_index_values snapshot_minutes =
     (case split_snapshot_indices_to_batches pm_gps_index_values pm_gps_idx0 snapshot_minutes of
        Inl e \<Rightarrow> Inl e
      | Inr batch_splits \<Rightarrow>
          remove_unit_batches
            \<lparr>pm_values = pm_vals, gps_values = gps_vals, weather_values = weather_vals,
             time_values = map_option (\<lambda>tv. np_split tv batch_splits) time_vals,
             pm_gps_idx = np_split pm_gps_idx0 batch_splits,
             timestamps = np_split timestamps0 batch_splits,
             weather_idx = (if weather_vals \<noteq> None then np_split weather_idx0 batch_splits
                            else [])\<rparr>)"

text \<open>
  \<open>__init__\<close> after \<open>prep_pm_gps\<close>, on the frame that \<open>prep_pm_gps\<close> has left behind.
\<close>

definition init_after_prep ::
  "dataframe \<Rightarrow> int \<Rightarrow> weather_frame option \<Rightarrow> int option
     \<Rightarrow> (int option \<Rightarrow> error + rat list) option \<Rightarrow> error + Dataset" where
  "init_after_prep pm_gps snapshot_minutes weather minutes_to_weather datetime_to_vec =
     (let pm_vals = map pm2_5 (rows pm_gps);
          gps_vals = map (\<lambda>r. (gpsLongitude r, gpsLatitude r)) (rows pm_gps);
          index = map timestamp (rows pm_gps);
          pm_gps_idx0 = comp_snapshot_indices index snapshot_minutes;
          timestamps0 = comp_snapshot_timestamps pm_gps_idx0 index
      in case (case weather of None \<Rightarrow> Inr (pm_gps_idx0, timestamps0, [])
               | Some w \<Rightarrow>
                   (case find_nearest (map fst w) timestamps0 of Inl e \<Rightarrow> Inl e
                    | Inr weather_idx0 \<Rightarrow>
                        remove_snapshots_without_weather pm_gps_idx0 timestamps0 weather_idx0
                          (map fst w) minutes_to_weather)) of
           Inl e \<Rightarrow> Inl e
         | Inr (pm_gps_idx1, timestamps1, weather_idx1) \<Rightarrow>
             (case (case datetime_to_vec of None \<Rightarrow> Inr None
                    | Some f \<Rightarrow> map_sum id Some (map_timestamps_to_features timestamps1 f)) of
                Inl e \<Rightarrow> Inl e
              | Inr time_vals \<Rightarrow>
                  split_to_batches pm_vals gps_vals (map_option (map snd) weather) time_vals
                    pm_gps_idx1 timestamps1 weather_idx1 index snapshot_minutes))"

text \<open>
  \<open>Dataset.__init__\<close>: the caller's primary table as the call leaves it, and the dataset or
  the error raised.
\<close>

definition Dataset_init ::
  "dataframe \<Rightarrow> int \<Rightarrow> weather_frame option \<Rightarrow> int option
     \<Rightarrow> (int option \<Rightarrow> error + rat list) option \<Rightarrow> dataframe \<times> (error + Dataset)" where
  "Dataset_init pm_gps snapshot_minutes weather minutes_to_weather datetime_to_vec =
     (case prep_pm_gps pm_gps snapshot_minutes of
        (pm_gps', Some e) \<Rightarrow> (pm_gps', Inl e)
      | (pm_gps', None) \<Rightarrow>
          (pm_gps', init_after_prep pm_gps' snapshot_minutes weather minutes_to_weather
                      datetime_to_vec))"

definition Dataset_len :: "Dataset \<Rightarrow> nat" where
  "Dataset_len self = length (timestamps self)"

section \<open>Indexing a dataset\<close>

text \<open>
  Modelled from the spec: the class \<open>Batch\<close>, which \<open>__getitem__\<close> constructs from keyword
  arguments and which the repository defines outside the two notebooks.  A batch exposes
  the representative timestamps of its snapshots, the per-snapshot slices of the mass and
  position arrays, and one weather vector and one calendar vector per snapshot, absent when
  not configured.
\<close>

record Batch =
  batch_timestamps :: "int option list"
  batch_pm :: "rat list list"
  batch_gps :: "(rat \<times> rat) list list"
  batch_weather :: "rat list list option"
  batch_time :: "rat list list option"

definition split_by_double_index :: "(nat \<times> nat) list \<Rightarrow> 'a list \<Rightarrow> 'a list list" where
  "split_by_double_index index arr = map (\<lambda>(start, end). py_slice start end arr) index"

text \<open>The keys \<open>__getitem__\<close> may be called with, and what it returns.\<close>

datatype key =
    KInt int
  | KSlice "int option" "int option" "int option"
  | KNumpyInt int
  | KStr string
  | KTuple "int list"

datatype item = ABatch Batch | BatchList "Batch list" | PyNone

text \<open>The branch \<open>isinstance(key, int)\<close>.\<close>

definition getitem_int :: "Dataset \<Rightarrow> int \<Rightarrow> error + Batch" where
  "getitem_int self k =
     (case np_get (timestamps self) k of Inl e \<Rightarrow> Inl e
      | Inr ts \<Rightarrow>
      (case np_get (pm_gps_idx self) k of Inl e \<Rightarrow> Inl e
       | Inr idx \<Rightarrow>
       (case (case weather_values self of None \<Rightarrow> Inr None
              | Some wv \<Rightarrow>
                  (case np_get (weather_idx self) k of Inl e \<Rightarrow> Inl e
                   | Inr wi \<Rightarrow> map_sum id Some (np_take wv wi))) of Inl e \<Rightarrow> Inl e
        | Inr w \<Rightarrow>
        (case (case time_values self of None \<Rightarrow> Inr None
               | Some tv \<Rightarrow> map_sum id Some (np_get tv k)) of Inl e \<Rightarrow> Inl e
         | Inr t \<Rightarrow>
             Inr \<lparr>batch_timestamps = ts,
                  batch_pm = split_by_double_index idx (pm_values self),
                  batch_gps = split_by_double_index idx (gps_values self),
                  batch_weather = w, batch_time = t\<rparr>))))"

text \<open>\<open>slice.indices(length)\<close> and \<open>range(start, stop, step)\<close> of Python.\<close>

definition slice_bound :: "int \<Rightarrow> int \<Rightarrow> int \<Rightarrow> int \<Rightarrow> int" where
  "slice_bound len lower upper i =
     (if i < 0 then (if i + len < lower then lower else i + len)
      else (if i > upper then upper else i))"

definition slice_indices ::
  "int option \<Rightarrow> int option \<Rightarrow> int option \<Rightarrow> int \<Rightarrow> error + (int \<times> int \<times> int)" where
  "slice_indices start stop step len =
     (let st = (case step of None \<Rightarrow> 1 | Some s \<Rightarrow> s)
      in if st = 0 then Inl ValueError
         else
           let lower = (if st < 0 then - 1 else 0);
               upper = (if st < 0 then len - 1 else len);
               a = (case start of None \<Rightarrow> (if st < 0 then upper else lower)
                    | Some i \<Rightarrow> slice_bound len lower upper i);
               b = (case stop of None \<Rightarrow> (if st < 0 then lower else upper)
                    | Some i \<Rightarrow> slice_bound len lower upper i)
           in Inr (a, b, st))"

definition py_range :: "int \<Rightarrow> int \<Rightarrow> int \<Rightarrow> int list" where
  "py_range start stop step =
     (if 0 < step
      then map (\<lambda>k. start + int k * step) [0..<nat ((stop - start + step - 1) div step)]
      else if step < 0
      then map (\<lambda>k. start + int k * step) [0..<nat ((start - stop - step - 1) div (- step))]
      else [])"

text \<open>
  \<open>__getitem__\<close>: an \<open>int\<close> gives a batch, a \<open>slice\<close> a list of batches, and any other key
  passes both \<open>isinstance\<close> tests and reaches the end of the function.
\<close>

fun getitem :: "Dataset \<Rightarrow> key \<Rightarrow> error + item" where
  "getitem self (KInt k) = map_sum id ABatch (getitem_int self k)"
| "getitem self (KSlice start stop step) =
     (case slice_indices start stop step (int (Dataset_len self)) of Inl e \<Rightarrow> Inl e
      | Inr (a, b, st) \<Rightarrow> map_sum id BatchList (map_result (getitem_int self) (py_range a b st)))"
| "getitem self _ = Inr PyNone"

text \<open>
  The gap between two snapshots as the batch segmenter measures it, in the words of the
  specification: from the last reading of the earlier snapshot to the first reading of
  the later one.
\<close>

definition snapshot_gap :: "int list \<Rightarrow> nat \<times> nat \<Rightarrow> nat \<times> nat \<Rightarrow> int" where
  "snapshot_gap index earlier later = index ! fst later - index ! (snd earlier - 1)"

text \<open>
  The nearest-match property in the words of the specification: position \<open>i\<close> holds a weather
  time closest to the query \<open>v\<close>; and the two ways to settle a query that lies exactly
  halfway between two neighbouring weather times.
\<close>

definition nearest_index :: "int list \<Rightarrow> int \<Rightarrow> nat \<Rightarrow> bool" where
  "nearest_index arr v i =
     (i < length arr \<and> list_all (\<lambda>a. \<bar>arr ! i - v\<bar> \<le> \<bar>a - v\<bar>) arr)"

definition halfway :: "int list \<Rightarrow> int \<Rightarrow> nat \<Rightarrow> bool" where
  "halfway arr v j = (arr ! j < v \<and> v < arr ! Suc j \<and> v - arr ! j = arr ! Suc j - v)"

definition earlier_on_tie :: "int list \<Rightarrow> int \<Rightarrow> nat \<Rightarrow> bool" where
  "earlier_on_tie arr v i =
     list_all (\<lambda>j. halfway arr v j \<longrightarrow> i = j) [0..<length arr - 1]"

definition later_on_tie :: "int list \<Rightarrow> int \<Rightarrow> nat \<Rightarrow> bool" where
  "later_on_tie arr v i =
     list_all (\<lambda>j. halfway arr v j \<longrightarrow> i = Suc j) [0..<length arr - 1]"

text \<open>
  Times less than \<open>2 ^ 62\<close> nanoseconds (about 146 years) away from the epoch: the difference
  of two such times stays inside the 64-bit range.
\<close>

definition within_span :: "int \<Rightarrow> bool" where
  "within_span t = (- (2 ^ 62) \<le> t \<and> t < 2 ^ 62)"


text \<open>
  A frame with one row per key (index value, latitude, longitude), in increasing key order.
\<close>

definition one_row_per_key :: "dataframe \<Rightarrow> bool" where
  "one_row_per_key df =
     (sorted (map row_key (rows df)) \<and> distinct (map row_key (rows df)))"

text \<open>
  The \<open>j\<close>-th batch of a dataset in the words of the specification: the representative
  timestamps of its snapshots, the slices of the value arrays between the bounds of each
  snapshot, and the weather vector and the calendar vector of each snapshot where
  configured.
\<close>

definition batch_at :: "Dataset \<Rightarrow> nat \<Rightarrow> Batch" where
  "batch_at self j =
     \<lparr>batch_timestamps = timestamps self ! j,
      batch_pm = map (\<lambda>(start, end). py_slice start end (pm_values self)) (pm_gps_idx self ! j),
      batch_gps = map (\<lambda>(start, end). py_slice start end (gps_values self)) (pm_gps_idx self ! j),
      batch_weather =
        map_option
          (\<lambda>wv. map (\<lambda>i. wv ! nat (if i < 0 then i + int (length wv) else i))
                 (weather_idx self ! j))
          (weather_values self),
      batch_time = map_option (\<lambda>tv. tv ! j) (time_values self)\<rparr>"

section \<open>Float64 numbers near one tenth\<close>

text \<open>
  The \<open>float64\<close> number nearest to one tenth, which Python prints as \<open>0.1\<close>, and the next
  \<open>float64\<close> number above it, printed as \<open>0.10000000000000002\<close>.
\<close>

definition float_0_1 :: rat where
  "float_0_1 = 7205759403792794 / 72057594037927936"

definition float_0_1_next :: rat where
  "float_0_1_next = 7205759403792795 / 72057594037927936"

section \<open>A worked example\<close>

text \<open>
  Six readings at minutes 0, 1, 16, 17, 31 and 32, weather readings at minutes 0 and 30,
  a snapshot duration of 15 minutes and a weather tolerance of 6 minutes.  The floored index
  is 0, 0, 15, 15, 30, 30 and the snapshots are \<open>(0,1), (1,3), (3,6)\<close> with the representative
  times 0, 7.5 and 25 minutes; the second one is 7.5 minutes from its nearest weather
  reading and is removed by the gate.  \<open>example_dataset\<close> is the dataset that construction
  returns when every snapshot gets the calendar vector \<open>[7]\<close>.
\<close>

definition example_pm_gps :: dataframe where
  "example_pm_gps =
     \<lparr>index_name = Some ''timestamp'', rows =
     [\<lparr>timestamp = timedelta64_m 0, pm2_5 = 1, gpsLongitude = 1, gpsLatitude = 2,
       temp_col = None\<rparr>,
      \<lparr>timestamp = timedelta64_m 1, pm2_5 = 2, gpsLongitude = 3, gpsLatitude = 4,
       temp_col = None\<rparr>,
      \<lparr>timestamp = timedelta64_m 16, pm2_5 = 3, gpsLongitude = 1, gpsLatitude = 2,
       temp_col = None\<rparr>,
      \<lparr>timestamp = timedelta64_m 17, pm2_5 = 4, gpsLongitude = 3, gpsLatitude = 4,
       temp_col = None\<rparr>,
      \<lparr>timestamp = timedelta64_m 31, pm2_5 = 5, gpsLongitude = 1, gpsLatitude = 2,
       temp_col = None\<rparr>,
      \<lparr>timestamp = timedelta64_m 32, pm2_5 = 6, gpsLongitude = 3, gpsLatitude = 4,
       temp_col = None\<rparr>]\<rparr>"

definition example_weather :: weather_frame where
  "example_weather = [(timedelta64_m 0, [20]), (timedelta64_m 30, [21])]"

definition example_dataset :: Dataset where
  "example_dataset =
     \<lparr>pm_values = [1, 2, 3, 4, 5, 6],
      gps_values = [(1, 2), (3, 4), (1, 2), (3, 4), (1, 2), (3, 4)],
      weather_values = Some [[20], [21]], time_values = Some [[[7], [7]]],
      pm_gps_idx = [[(0, 1), (3, 6)]],
      timestamps = [[Some 0, Some (timedelta64_m 25)]],
      weather_idx = [[0, 1]]\<rparr>"

section \<open>Results: interval segmenter\<close>

text \<open>
  Claim C1 (segmentation correctness).  The claim says that every snapshot \<open>(s, e)\<close> returned by
  \<open>comp_snapshot_indices\<close> has all its inner gaps below \<open>snapshot_minutes\<close> and is bordered by
  gaps of at least \<open>snapshot_minutes\<close>.  The code takes the position \<open>i\<close> of a large difference
  \<open>index[i+1] - index[i]\<close> itself as the boundary, where the next snapshot begins at \<open>i + 1\<close>.
  On the readings at minutes 0, 1, 2, 20, 21, 40 with a threshold of 15 minutes it returns
  \<open>(0,2), (2,4), (4,6)\<close>: the snapshot \<open>(2,4)\<close> holds the readings of minute 2 and minute 20,
  18 minutes apart, and the gap in front of it is one minute.
\<close>

theorem comp_snapshot_indices_boundary_off_by_one:
  "comp_snapshot_indices (map timedelta64_m [0, 1, 2, 20, 21, 40]) 15 = [(0, 2), (2, 4), (4, 6)]
   \<and> \<not> intra_gaps_below (map timedelta64_m [0, 1, 2, 20, 21, 40]) 15 (2, 4)
   \<and> \<not> boundary_gaps_reach (map timedelta64_m [0, 1, 2, 20, 21, 40]) 15 (2, 4)"
  by (simp add: comp_snapshot_indices_def np_nonzero_def intra_gaps_below_def
      boundary_gaps_reach_def timedelta64_m_def ns_per_minute_def upt_rec)

section \<open>Results: float64 rounding\<close>

text \<open>
  Rounding leaves a number with a significand of at most 53 bits as it is, so the result
  of an arithmetic operation is rounded once and for all: \<open>round64\<close> is idempotent.
\<close>

lemma powi2_pos: "0 < (2::rat) powi e"
  by simp

lemma powi2_nat: "0 \<le> e \<Longrightarrow> (2::rat) powi e = 2 ^ nat e"
  by (simp add: power_int_def)

lemma powi2_less: "e < e' \<Longrightarrow> (2::rat) powi e < 2 powi e'"
  by (rule power_int_strict_increasing) simp_all

lemma powi2_le: "e \<le> e' \<Longrightarrow> (2::rat) powi e \<le> 2 powi e'"
  by (rule power_int_increasing) simp_all

lemma powi2_add: "(2::rat) powi (a + b) = 2 powi a * 2 powi b"
  by (rule power_int_add) simp

lemma powi2_diff: "(2::rat) powi (a - b) = 2 powi a / 2 powi b"
  by (rule power_int_diff) simp

lemma of_int_bitlen_bounds:
  assumes "0 < p"
  shows "(2::rat) powi (bitlen p - 1) \<le> of_int p" and "(of_int p :: rat) < 2 powi bitlen p"
proof -
  from bitlen_bounds [OF assms]
  have lo: "2 ^ nat (bitlen p - 1) \<le> p" and hi: "p < 2 ^ nat (bitlen p)"
    by simp_all
  have b1: "1 \<le> bitlen p"
    using assms by (simp add: bitlen_alt_def)
  have "(of_int (2 ^ nat (bitlen p - 1)) :: rat) \<le> of_int p"
    using lo by (simp only: of_int_le_iff)
  then show "(2::rat) powi (bitlen p - 1) \<le> of_int p"
    using b1 by (simp add: powi2_nat)
  have "(of_int p :: rat) < of_int (2 ^ nat (bitlen p))"
    using hi by (simp only: of_int_less_iff)
  then show "(of_int p :: rat) < 2 powi bitlen p"
    using b1 by (simp add: powi2_nat)
qed

lemma ilog2_bounds:
  assumes "0 < x"
  shows "2 powi ilog2 x \<le> x" and "x < 2 powi (ilog2 x + 1)"
proof -
  obtain p q where pq: "quotient_of x = (p, q)"
    by (cases "quotient_of x")
  then have q: "0 < q" and x: "x = of_int p / of_int q"
    by (simp_all add: quotient_of_denom_pos quotient_of_div)
  have p: "0 < p"
    using assms q x by (simp add: zero_less_divide_iff)
  define e where "e = bitlen p - bitlen q"
  note bp = of_int_bitlen_bounds [OF p] and bq = of_int_bitlen_bounds [OF q]
  have qpos: "(0::rat) < of_int q" using q by simp
  have upper: "x < 2 powi (e + 1)"
  proof -
    have "x < 2 powi bitlen p / of_int q"
      unfolding x using bp(2) qpos by (simp add: divide_strict_right_mono)
    also have "\<dots> \<le> 2 powi bitlen p / 2 powi (bitlen q - 1)"
      using bq(1) qpos by (intro divide_left_mono) (simp_all add: mult_pos_pos)
    also have "\<dots> = 2 powi (e + 1)"
      by (simp add: e_def powi2_diff [symmetric] algebra_simps)
    finally show ?thesis .
  qed
  have lower: "2 powi (e - 1) \<le> x"
  proof -
    have "(2::rat) powi (e - 1) = 2 powi (bitlen p - 1) / 2 powi bitlen q"
      by (simp add: e_def powi2_diff [symmetric] algebra_simps)
    also have "\<dots> \<le> of_int p / 2 powi bitlen q"
      using bp(1) by (intro divide_right_mono) simp_all
    also have "\<dots> \<le> of_int p / of_int q"
      using bq(2) p qpos by (intro divide_left_mono) (simp_all add: mult_pos_pos)
    finally show ?thesis by (simp add: x)
  qed
  have il: "ilog2 x = (if 2 powi e \<le> x then e else e - 1)"
    by (simp add: ilog2_def pq e_def Let_def)
  show "2 powi ilog2 x \<le> x"
    using lower by (simp add: il)
  show "x < 2 powi (ilog2 x + 1)"
    using upper by (simp add: il not_le)
qed

lemma ilog2_unique:
  assumes "(2::rat) powi e \<le> x" and "x < 2 powi (e + 1)"
  shows "ilog2 x = e"
proof -
  have pos: "0 < x"
    by (rule less_le_trans [OF powi2_pos assms(1)])
  note b = ilog2_bounds [OF pos]
  have "\<not> ilog2 x < e"
  proof
    assume "ilog2 x < e"
    then have "(2::rat) powi (ilog2 x + 1) \<le> 2 powi e"
      by (intro powi2_le) simp
    with b(2) assms(1) show False by simp
  qed
  moreover have "\<not> e < ilog2 x"
  proof
    assume "e < ilog2 x"
    then have "(2::rat) powi (e + 1) \<le> 2 powi ilog2 x"
      by (intro powi2_le) simp
    with b(1) assms(2) show False by simp
  qed
  ultimately show ?thesis by simp
qed

lemma round_half_even_of_int: "round_half_even (of_int k) = k"
  by (simp add: round_half_even_def)

lemma round_half_even_bounds:
  assumes "of_int a \<le> q" and "q \<le> of_int b"
  shows "a \<le> round_half_even q" and "round_half_even q \<le> b"
proof -
  define f where "f = \<lfloor>q\<rfloor>"
  have af: "a \<le> f" using assms(1) by (simp add: f_def le_floor_iff)
  have fb: "f \<le> b" using assms(2) by (simp add: f_def floor_le_iff)
  have r: "round_half_even q = f \<or> (round_half_even q = f + 1 \<and> of_int f < q)"
    by (auto simp: round_half_even_def Let_def f_def)
  from r af show "a \<le> round_half_even q" by auto
  from r show "round_half_even q \<le> b"
  proof
    assume "round_half_even q = f"
    with fb show ?thesis by simp
  next
    assume h: "round_half_even q = f + 1 \<and> of_int f < q"
    then have "(of_int f :: rat) < of_int b" using assms(2) by simp
    then have "f < b" by (simp only: of_int_less_iff)
    with h show ?thesis by simp
  qed
qed

lemma round64_exact:
  assumes m: "0 < m" "m \<le> 2 ^ 53" and s: "- 1074 \<le> s" and sg: "sg = 1 \<or> sg = - 1"
  shows "round64 (sg * of_int m * 2 powi s) = sg * of_int m * 2 powi s"
proof -
  define y :: rat where "y = sg * of_int m * 2 powi s"
  have mpos: "(0::rat) < of_int m" using m(1) by simp
  have ay: "\<bar>y\<bar> = of_int m * 2 powi s"
    using sg mpos by (auto simp: y_def abs_mult)
  have apos: "0 < \<bar>y\<bar>"
    unfolding ay using mpos by (simp add: mult_pos_pos)
  then have y0: "y \<noteq> 0" by simp
  have sy: "sgn y = sg"
    using sg mpos by (auto simp: y_def sgn_mult)
  note bm = of_int_bitlen_bounds [OF m(1)]
  have "2 powi (bitlen m - 1 + s) \<le> \<bar>y\<bar>"
    unfolding ay powi2_add using bm(1) by (intro mult_right_mono) simp_all
  moreover have "\<bar>y\<bar> < 2 powi (bitlen m - 1 + s + 1)"
  proof -
    have "\<bar>y\<bar> < 2 powi bitlen m * 2 powi s"
      unfolding ay using bm(2) by (intro mult_strict_right_mono) simp_all
    then show ?thesis by (simp add: powi2_add [symmetric] algebra_simps)
  qed
  ultimately have il: "ilog2 \<bar>y\<bar> = bitlen m - 1 + s"
    by (rule ilog2_unique)
  define s' where "s' = max (ilog2 \<bar>y\<bar> - 52) (- 1074)"
  have r: "round64 y = sg * of_int (round_half_even (\<bar>y\<bar> / 2 powi s')) * 2 powi s'"
    using y0 by (simp add: round64_def s'_def sy Let_def)
  show ?thesis
  proof (cases "m = 2 ^ 53")
    case True
    have "bitlen 1 = 1"
      by (simp add: bitlen_alt_def)
    then have "bitlen m = 54"
      using bitlen_pow2 [of 1 53] by (simp add: True)
    then have s'eq: "s' = s + 1"
      using s by (simp add: s'_def il)
    have "\<bar>y\<bar> / 2 powi s' = of_int (2 ^ 52)"
      by (simp add: ay s'eq True powi2_add)
    then have "round_half_even (\<bar>y\<bar> / 2 powi s') = 2 ^ 52"
      by (simp only: round_half_even_of_int)
    then have "round64 y = sg * of_int (2 ^ 52) * 2 powi (s + 1)"
      by (simp add: r s'eq)
    also have "\<dots> = sg * of_int m * 2 powi s"
      by (simp add: True powi2_add)
    finally show ?thesis by (simp add: y_def)
  next
    case False
    with m(2) have "m < 2 ^ 53" by simp
    then have "bitlen m \<le> 53"
      by (simp add: bitlen_le_iff_power)
    then have le: "s' \<le> s"
      using s by (simp add: s'_def il)
    define d where "d = nat (s - s')"
    have sd: "s = s' + int d" using le by (simp add: d_def)
    have "\<bar>y\<bar> / 2 powi s' = of_int (m * 2 ^ d)"
      by (simp add: ay sd powi2_add)
    then have "round_half_even (\<bar>y\<bar> / 2 powi s') = m * 2 ^ d"
      by (simp only: round_half_even_of_int)
    then have "round64 y = sg * of_int (m * 2 ^ d) * 2 powi s'"
      by (simp add: r)
    also have "\<dots> = sg * of_int m * 2 powi s"
      by (simp add: sd powi2_add)
    finally show ?thesis by (simp add: y_def)
  qed
qed

lemma round64_idem: "round64 (round64 x) = round64 x"
proof (cases "x = 0")
  case True
  then show ?thesis by (simp add: round64_def)
next
  case False
  define a where "a = \<bar>x\<bar>"
  define s where "s = max (ilog2 a - 52) (- 1074)"
  define q where "q = a / 2 powi s"
  define m where "m = round_half_even q"
  have apos: "0 < a" using False by (simp add: a_def)
  have r: "round64 x = sgn x * of_int m * 2 powi s"
    using False by (simp add: round64_def Let_def a_def s_def q_def m_def)
  have s: "- 1074 \<le> s" by (simp add: s_def)
  have qpos: "0 \<le> q" using apos by (simp add: q_def)
  have "q < 2 powi (ilog2 a + 1) / 2 powi s"
    unfolding q_def using ilog2_bounds(2) [OF apos] by (intro divide_strict_right_mono) simp_all
  also have "\<dots> = 2 powi (ilog2 a + 1 - s)"
    by (simp add: powi2_diff)
  also have "\<dots> \<le> 2 powi 53"
    by (intro powi2_le) (simp add: s_def)
  finally have qhi: "q \<le> of_int (2 ^ 53)" by simp
  have qlo: "of_int 0 \<le> q" using qpos by simp
  have mb: "0 \<le> m" "m \<le> 2 ^ 53"
    unfolding m_def
    using round_half_even_bounds [OF qlo qhi] by simp_all
  have sg: "sgn x = 1 \<or> sgn x = - 1"
    using False by (cases "0 < x") (simp_all add: sgn_if)
  show ?thesis
  proof (cases "m = 0")
    case True
    then have "round64 x = 0" by (simp add: r)
    moreover have "round64 0 = 0" by (simp add: round64_def)
    ultimately show ?thesis by simp
  next
    case False
    with mb have "0 < m" by simp
    from round64_exact [OF this mb(2) s sg] show ?thesis
      by (simp add: r)
  qed
qed

lemma round64_numeral: "numeral k \<le> (2::int) ^ 53 \<Longrightarrow> round64 (numeral k) = numeral k"
  using round64_exact [of "numeral k" 0 1] by simp

lemma round64_0: "round64 0 = 0"
  by (simp add: round64_def)

lemma round64_1: "round64 1 = 1"
  using round64_exact [of 1 0 1] by simp

section \<open>Results: duplicate averager\<close>

lemma round64_mean: "round64 (mean xs) = mean xs"
  by (simp add: mean_def float_div_def round64_idem)

lemma kahan_sum_exact:
  assumes "round64 val = val" and "round64 (s + val) = s + val"
  shows "kahan_sum (val # vals) (s, 0) = kahan_sum vals (s + val, 0)"
  using assms by (simp add: float_add_def float_sub_def Let_def round64_0)

lemma kahan_sum_last: "fst (kahan_sum [val] (s, 0)) = round64 (s + round64 val)"
  by (simp add: float_add_def float_sub_def Let_def)

lemma mean_single: "round64 x = x \<Longrightarrow> mean [x] = x"
  by (simp add: mean_def float_div_def float_add_def float_sub_def Let_def)

lemma mean_two:
  assumes "round64 x = x"
  shows "mean [x, y] = round64 (round64 (x + round64 y) / 2)"
proof -
  have "kahan_sum [x, y] (0, 0) = kahan_sum [y] (0 + x, 0)"
    by (rule kahan_sum_exact) (simp_all add: assms)
  then show ?thesis
    using kahan_sum_last [of y x] by (simp add: mean_def float_div_def)
qed

lemma mean_three:
  assumes "round64 x = x" and "round64 y = y" and "round64 (x + y) = x + y"
  shows "mean [x, y, z] = round64 (round64 (x + y + round64 z) / 3)"
proof -
  have "kahan_sum [x, y, z] (0, 0) = kahan_sum [y, z] (0 + x, 0)"
    by (rule kahan_sum_exact) (simp_all add: assms)
  moreover have "kahan_sum [y, z] (x, 0) = kahan_sum [z] (x + y, 0)"
    by (rule kahan_sum_exact) (simp_all add: assms)
  ultimately show ?thesis
    using kahan_sum_last [of z "x + y"] by (simp add: mean_def float_div_def)
qed

lemma mean_row_single:
  assumes "temp_col r = None" and "round64 (pm2_5 r) = pm2_5 r"
    and "round64 (gpsLongitude r) = gpsLongitude r" and "round64 (gpsLatitude r) = gpsLatitude r"
  shows "mean_row (timestamp r) [r] = r"
  using assms by (simp add: mean_row_def mean_single)

lemma groupby_mean_row:
  assumes "r \<in> set (groupby_mean rs)"
  shows "temp_col r = None \<and> round64 (pm2_5 r) = pm2_5 r
       \<and> round64 (gpsLongitude r) = gpsLongitude r \<and> round64 (gpsLatitude r) = gpsLatitude r"
proof -
  from assms obtain t g where "r = mean_row t g"
    by (auto simp: groupby_mean_def)
  then show ?thesis by (simp add: mean_row_def round64_mean)
qed

lemma groupby_mean_temp_col:
  "groupby_mean (map (\<lambda>r. r\<lparr>temp_col := f r\<rparr>) rs) = groupby_mean rs"
proof -
  have key: "\<And>r. row_key (r\<lparr>temp_col := f r\<rparr>) = row_key r"
    by (simp add: row_key_def row_tuple_def)
  have mr: "\<And>t g. mean_row t (map (\<lambda>r. r\<lparr>temp_col := f r\<rparr>) g) = mean_row t g"
    by (simp add: mean_row_def comp_def)
  have "\<And>k. filter (\<lambda>r. row_key r = k) (map (\<lambda>r. r\<lparr>temp_col := f r\<rparr>) rs)
      = map (\<lambda>r. r\<lparr>temp_col := f r\<rparr>) (filter (\<lambda>r. row_key r = k) rs)"
    by (simp add: filter_map comp_def key)
  then show ?thesis
    by (simp add: groupby_mean_def comp_def key mr)
qed

lemma groupby_mean_groups:
  assumes "map (\<lambda>k. (fst k, filter (\<lambda>r. row_key r = k) rs)) (sort (remdups (map row_key rs))) = gs"
  shows "groupby_mean rs = map (\<lambda>g. mean_row (fst g) (snd g)) gs"
  unfolding assms [symmetric] by (simp add: groupby_mean_def comp_def)

lemma snd_average_duplicates:
  assumes "index_name_error (index_name df) = None"
  shows "snd (average_duplicates df)
           = Inr \<lparr>index_name = index_name df, rows = groupby_mean (rows df)\<rparr>"
  using assms by (simp add: average_duplicates_def Let_def groupby_mean_temp_col)

lemma index_name_error_timestamp: "index_name_error (Some ''timestamp'') = None"
  by (simp add: index_name_error_def temp_col_name_def)

lemma filter_same_key:
  assumes "distinct (map f xs)" and "x \<in> set xs"
  shows "filter (\<lambda>y. f y = f x) xs = [x]"
  using assms
proof (induction xs)
  case Nil
  then show ?case by simp
next
  case (Cons a xs)
  show ?case
  proof (cases "a = x")
    case True
    then have "f x \<notin> f ` set xs" using Cons.prems(1) by simp
    then have "filter (\<lambda>y. f y = f x) xs = []"
      by (auto simp: filter_empty_conv) (metis imageI)
    with True show ?thesis by simp
  next
    case False
    then have x: "x \<in> set xs" using Cons.prems(2) by simp
    then have "f a \<noteq> f x" using Cons.prems(1) by auto
    moreover have "filter (\<lambda>y. f y = f x) xs = [x]"
      using Cons.IH Cons.prems(1) x by simp
    ultimately show ?thesis by simp
  qed
qed

lemma groupby_mean_fixed:
  assumes srt: "sorted (map row_key rs)" and dist: "distinct (map row_key rs)"
    and flt: "\<And>r. r \<in> set rs \<Longrightarrow> temp_col r = None \<and> round64 (pm2_5 r) = pm2_5 r
       \<and> round64 (gpsLongitude r) = gpsLongitude r \<and> round64 (gpsLatitude r) = gpsLatitude r"
  shows "groupby_mean rs = rs"
proof -
  have keys: "sort (remdups (map row_key rs)) = map row_key rs"
    using srt dist by (simp add: sort_key_id_if_sorted)
  have "map (\<lambda>r. mean_row (fst (row_key r)) (filter (\<lambda>r'. row_key r' = row_key r) rs)) rs
      = map (\<lambda>r. r) rs"
  proof (rule map_cong [OF refl])
    fix r assume r: "r \<in> set rs"
    have "filter (\<lambda>r'. row_key r' = row_key r) rs = [r]"
      using dist r by (rule filter_same_key)
    moreover have "fst (row_key r) = timestamp r"
      by (simp add: row_key_def)
    ultimately show "mean_row (fst (row_key r)) (filter (\<lambda>r'. row_key r' = row_key r) rs) = r"
      using flt [OF r] by (simp add: mean_row_single)
  qed
  then show ?thesis
    by (simp add: groupby_mean_def keys comp_def)
qed

lemma prep_pm_gps_no_error:
  assumes "snapshot_minutes \<noteq> 0" and "index_name_error (index_name pm_gps) = None"
  shows "prep_pm_gps pm_gps snapshot_minutes
           = (pm_gps\<lparr>rows := map (\<lambda>r. r\<lparr>timestamp := index_floor snapshot_minutes (timestamp r),
                                         temp_col := Some (row_tuple r)\<rparr>) (rows pm_gps)\<rparr>, None)"
  using assms
  by (simp add: prep_pm_gps_def average_duplicates_def Let_def comp_def row_tuple_def)

lemma Dataset_init_no_error:
  assumes "snapshot_minutes \<noteq> 0" and "index_name_error (index_name pm_gps) = None"
  shows "Dataset_init pm_gps snapshot_minutes weather minutes_to_weather datetime_to_vec
           = (pm_gps\<lparr>rows := map (\<lambda>r. r\<lparr>timestamp := index_floor snapshot_minutes (timestamp r),
                                         temp_col := Some (row_tuple r)\<rparr>) (rows pm_gps)\<rparr>,
              init_after_prep
                (pm_gps\<lparr>rows := map (\<lambda>r. r\<lparr>timestamp := index_floor snapshot_minutes (timestamp r),
                                         temp_col := Some (row_tuple r)\<rparr>) (rows pm_gps)\<rparr>)
                snapshot_minutes weather minutes_to_weather datetime_to_vec)"
  by (simp add: Dataset_init_def prep_pm_gps_no_error [OF assms])

lemma Dataset_init_timestamp:
  assumes "snapshot_minutes \<noteq> 0"
  shows "Dataset_init \<lparr>index_name = Some ''timestamp'', rows = rs\<rparr> snapshot_minutes weather
             minutes_to_weather datetime_to_vec
           = (\<lparr>index_name = Some ''timestamp'',
               rows = map (\<lambda>r. r\<lparr>timestamp := index_floor snapshot_minutes (timestamp r),
                                 temp_col := Some (row_tuple r)\<rparr>) rs\<rparr>,
              init_after_prep
                \<lparr>index_name = Some ''timestamp'',
                 rows = map (\<lambda>r. r\<lparr>timestamp := index_floor snapshot_minutes (timestamp r),
                                   temp_col := Some (row_tuple r)\<rparr>) rs\<rparr>
                snapshot_minutes weather minutes_to_weather datetime_to_vec)"
  using Dataset_init_no_error [of snapshot_minutes "\<lparr>index_name = Some ''timestamp'', rows = rs\<rparr>"]
    assms by (simp add: index_name_error_timestamp)

text \<open>
  Claim C8 (idempotence of the duplicate averager), as the claim states it: a second
  application returns the frame of the first.  The means are \<open>float64\<close> numbers, and the mean
  of three equal numbers need not be that number: three rows at latitude \<open>0.1\<close> have the mean
  latitude \<open>0.10000000000000002\<close>.  With a fourth row of the same time bucket at that latitude
  the first application returns two rows with the same time, latitude and longitude, and the
  second application merges them into one.
\<close>

theorem average_duplicates_twice_on_floats:
  "snd (average_duplicates
      \<lparr>index_name = Some ''timestamp'', rows =
        [\<lparr>timestamp = 0, pm2_5 = 1, gpsLongitude = 1, gpsLatitude = float_0_1, temp_col = None\<rparr>,
         \<lparr>timestamp = 0, pm2_5 = 1, gpsLongitude = 1, gpsLatitude = float_0_1, temp_col = None\<rparr>,
         \<lparr>timestamp = 0, pm2_5 = 1, gpsLongitude = 1, gpsLatitude = float_0_1, temp_col = None\<rparr>,
         \<lparr>timestamp = 0, pm2_5 = 3, gpsLongitude = 1, gpsLatitude = float_0_1_next,
          temp_col = None\<rparr>]\<rparr>)
   = Inr \<lparr>index_name = Some ''timestamp'', rows =
        [\<lparr>timestamp = 0, pm2_5 = 1, gpsLongitude = 1, gpsLatitude = float_0_1_next,
          temp_col = None\<rparr>,
         \<lparr>timestamp = 0, pm2_5 = 3, gpsLongitude = 1, gpsLatitude = float_0_1_next,
          temp_col = None\<rparr>]\<rparr>
   \<and> snd (average_duplicates
      \<lparr>index_name = Some ''timestamp'', rows =
        [\<lparr>timestamp = 0, pm2_5 = 1, gpsLongitude = 1, gpsLatitude = float_0_1_next,
          temp_col = None\<rparr>,
         \<lparr>timestamp = 0, pm2_5 = 3, gpsLongitude = 1, gpsLatitude = float_0_1_next,
          temp_col = None\<rparr>]\<rparr>)
   = Inr \<lparr>index_name = Some ''timestamp'', rows =
        [\<lparr>timestamp = 0, pm2_5 = 2, gpsLongitude = 1, gpsLatitude = float_0_1_next,
          temp_col = None\<rparr>]\<rparr>"
proof -
  have r0: "round64 float_0_1 = float_0_1"
    by code_simp
  have r1: "round64 float_0_1_next = float_0_1_next"
    by code_simp
  have r00: "round64 (float_0_1 + float_0_1) = float_0_1 + float_0_1"
    by code_simp
  have "round64 (round64 (float_0_1 + float_0_1 + round64 float_0_1) / 3) = float_0_1_next"
    by code_simp
  then have m0: "mean [float_0_1, float_0_1, float_0_1] = float_0_1_next"
    by (simp only: mean_three [OF r0 r0 r00])
  have "round64 (round64 (float_0_1_next + round64 float_0_1_next) / 2) = float_0_1_next"
    by code_simp
  then have m1: "mean [float_0_1_next, float_0_1_next] = float_0_1_next"
    by (simp only: mean_two [OF r1])
  have m111: "mean [1, 1, 1] = 1"
    by (simp add: mean_three round64_1 round64_numeral)
  have m11: "mean [1, 1] = 1"
    by (simp add: mean_two round64_1 round64_numeral)
  have m13: "mean [1, 3] = 2"
    by (simp add: mean_two round64_1 round64_numeral)
  have m3: "mean [3] = 3" and m_1: "mean [1] = 1" and mf: "mean [float_0_1_next] = float_0_1_next"
    by (simp_all add: mean_single round64_1 round64_numeral r1)
  have g1: "map (\<lambda>k. (fst k, filter (\<lambda>r. row_key r = k)
        [\<lparr>timestamp = 0, pm2_5 = 1, gpsLongitude = 1, gpsLatitude = float_0_1, temp_col = None\<rparr>,
         \<lparr>timestamp = 0, pm2_5 = 1, gpsLongitude = 1, gpsLatitude = float_0_1, temp_col = None\<rparr>,
         \<lparr>timestamp = 0, pm2_5 = 1, gpsLongitude = 1, gpsLatitude = float_0_1, temp_col = None\<rparr>,
         \<lparr>timestamp = 0, pm2_5 = 3, gpsLongitude = 1, gpsLatitude = float_0_1_next,
          temp_col = None\<rparr>]))
      (sort (remdups (map row_key
        [\<lparr>timestamp = 0, pm2_5 = 1, gpsLongitude = 1, gpsLatitude = float_0_1, temp_col = None\<rparr>,
         \<lparr>timestamp = 0, pm2_5 = 1, gpsLongitude = 1, gpsLatitude = float_0_1, temp_col = None\<rparr>,
         \<lparr>timestamp = 0, pm2_5 = 1, gpsLongitude = 1, gpsLatitude = float_0_1, temp_col = None\<rparr>,
         \<lparr>timestamp = 0, pm2_5 = 3, gpsLongitude = 1, gpsLatitude = float_0_1_next,
          temp_col = None\<rparr>])))
    = [(0, [\<lparr>timestamp = 0, pm2_5 = 1, gpsLongitude = 1, gpsLatitude = float_0_1, temp_col = None\<rparr>,
         \<lparr>timestamp = 0, pm2_5 = 1, gpsLongitude = 1, gpsLatitude = float_0_1, temp_col = None\<rparr>,
         \<lparr>timestamp = 0, pm2_5 = 1, gpsLongitude = 1, gpsLatitude = float_0_1, temp_col = None\<rparr>]),
       (0, [\<lparr>timestamp = 0, pm2_5 = 3, gpsLongitude = 1, gpsLatitude = float_0_1_next,
          temp_col = None\<rparr>])]"
    by code_simp
  have g2: "map (\<lambda>k. (fst k, filter (\<lambda>r. row_key r = k)
        [\<lparr>timestamp = 0, pm2_5 = 1, gpsLongitude = 1, gpsLatitude = float_0_1_next,
          temp_col = None\<rparr>,
         \<lparr>timestamp = 0, pm2_5 = 3, gpsLongitude = 1, gpsLatitude = float_0_1_next,
          temp_col = None\<rparr>]))
      (sort (remdups (map row_key
        [\<lparr>timestamp = 0, pm2_5 = 1, gpsLongitude = 1, gpsLatitude = float_0_1_next,
          temp_col = None\<rparr>,
         \<lparr>timestamp = 0, pm2_5 = 3, gpsLongitude = 1, gpsLatitude = float_0_1_next,
          temp_col = None\<rparr>])))
    = [(0, [\<lparr>timestamp = 0, pm2_5 = 1, gpsLongitude = 1, gpsLatitude = float_0_1_next,
          temp_col = None\<rparr>,
         \<lparr>timestamp = 0, pm2_5 = 3, gpsLongitude = 1, gpsLatitude = float_0_1_next,
          temp_col = None\<rparr>])]"
    by code_simp
  show ?thesis
    by (simp add: snd_average_duplicates index_name_error_timestamp
        groupby_mean_groups [OF g1] groupby_mean_groups [OF g2] mean_row_def
        m0 m1 m111 m11 m13 m3 m_1 mf)
qed

text \<open>
  Claim C8, amended: a frame returned by \<open>average_duplicates\<close>, called as the repository
  calls it with the columns \<open>gpsLatitude\<close> and \<open>gpsLongitude\<close>, whose rows are in key order
  with pairwise different keys (index value, latitude, longitude) is returned unchanged by a
  second application.
\<close>

theorem average_duplicates_second_call:
  assumes first: "snd (average_duplicates df) = Inr out" and keys: "one_row_per_key out"
  shows "snd (average_duplicates out) = Inr out"
proof -
  define rs where "rs = map (\<lambda>r. r\<lparr>temp_col := Some (row_tuple r)\<rparr>) (rows df)"
  from first have name: "index_name_error (index_name df) = None"
    and out: "out = \<lparr>index_name = index_name df, rows = groupby_mean rs\<rparr>"
    by (auto simp: average_duplicates_def Let_def rs_def split: option.splits)
  have rows_out: "rows out = groupby_mean rs" and name_out: "index_name out = index_name df"
    by (simp_all add: out)
  have "groupby_mean (rows out) = rows out"
  proof (rule groupby_mean_fixed)
    show "sorted (map row_key (rows out))" "distinct (map row_key (rows out))"
      using keys by (simp_all add: one_row_per_key_def)
    fix r assume "r \<in> set (rows out)"
    then show "temp_col r = None \<and> round64 (pm2_5 r) = pm2_5 r
       \<and> round64 (gpsLongitude r) = gpsLongitude r \<and> round64 (gpsLatitude r) = gpsLatitude r"
      unfolding rows_out by (rule groupby_mean_row)
  qed
  moreover have "index_name_error (index_name out) = None"
    using name by (simp add: name_out)
  ultimately show ?thesis
    by (simp add: snd_average_duplicates)
qed

theorem average_duplicates_second_call_witness:
  "snd (average_duplicates
      \<lparr>index_name = Some ''timestamp'', rows =
        [\<lparr>timestamp = 0, pm2_5 = 10, gpsLongitude = 1, gpsLatitude = 2, temp_col = None\<rparr>,
         \<lparr>timestamp = 0, pm2_5 = 3, gpsLongitude = 1, gpsLatitude = 1, temp_col = None\<rparr>,
         \<lparr>timestamp = 0, pm2_5 = 20, gpsLongitude = 1, gpsLatitude = 2, temp_col = None\<rparr>]\<rparr>)
   = Inr \<lparr>index_name = Some ''timestamp'', rows =
        [\<lparr>timestamp = 0, pm2_5 = 3, gpsLongitude = 1, gpsLatitude = 1, temp_col = None\<rparr>,
         \<lparr>timestamp = 0, pm2_5 = 15, gpsLongitude = 1, gpsLatitude = 2, temp_col = None\<rparr>]\<rparr>
   \<and> one_row_per_key \<lparr>index_name = Some ''timestamp'', rows =
        [\<lparr>timestamp = 0, pm2_5 = 3, gpsLongitude = 1, gpsLatitude = 1, temp_col = None\<rparr>,
         \<lparr>timestamp = 0, pm2_5 = 15, gpsLongitude = 1, gpsLatitude = 2, temp_col = None\<rparr>]\<rparr>
   \<and> snd (average_duplicates
      \<lparr>index_name = Some ''timestamp'', rows =
        [\<lparr>timestamp = 0, pm2_5 = 3, gpsLongitude = 1, gpsLatitude = 1, temp_col = None\<rparr>,
         \<lparr>timestamp = 0, pm2_5 = 15, gpsLongitude = 1, gpsLatitude = 2, temp_col = None\<rparr>]\<rparr>)
   = Inr \<lparr>index_name = Some ''timestamp'', rows =
        [\<lparr>timestamp = 0, pm2_5 = 3, gpsLongitude = 1, gpsLatitude = 1, temp_col = None\<rparr>,
         \<lparr>timestamp = 0, pm2_5 = 15, gpsLongitude = 1, gpsLatitude = 2, temp_col = None\<rparr>]\<rparr>"
proof -
  have g: "map (\<lambda>k. (fst k, filter (\<lambda>r. row_key r = k)
        [\<lparr>timestamp = 0, pm2_5 = 10, gpsLongitude = 1, gpsLatitude = 2, temp_col = None\<rparr>,
         \<lparr>timestamp = 0, pm2_5 = 3, gpsLongitude = 1, gpsLatitude = 1, temp_col = None\<rparr>,
         \<lparr>timestamp = 0, pm2_5 = 20, gpsLongitude = 1, gpsLatitude = 2, temp_col = None\<rparr>]))
      (sort (remdups (map row_key
        [\<lparr>timestamp = 0, pm2_5 = 10, gpsLongitude = 1, gpsLatitude = 2, temp_col = None\<rparr>,
         \<lparr>timestamp = 0, pm2_5 = 3, gpsLongitude = 1, gpsLatitude = 1, temp_col = None\<rparr>,
         \<lparr>timestamp = 0, pm2_5 = 20, gpsLongitude = 1, gpsLatitude = 2, temp_col = None\<rparr>])))
    = [(0, [\<lparr>timestamp = 0, pm2_5 = 3, gpsLongitude = 1, gpsLatitude = 1, temp_col = None\<rparr>]),
       (0, [\<lparr>timestamp = 0, pm2_5 = 10, gpsLongitude = 1, gpsLatitude = 2, temp_col = None\<rparr>,
            \<lparr>timestamp = 0, pm2_5 = 20, gpsLongitude = 1, gpsLatitude = 2, temp_col = None\<rparr>])]"
    by code_simp
  have first: "snd (average_duplicates
      \<lparr>index_name = Some ''timestamp'', rows =
        [\<lparr>timestamp = 0, pm2_5 = 10, gpsLongitude = 1, gpsLatitude = 2, temp_col = None\<rparr>,
         \<lparr>timestamp = 0, pm2_5 = 3, gpsLongitude = 1, gpsLatitude = 1, temp_col = None\<rparr>,
         \<lparr>timestamp = 0, pm2_5 = 20, gpsLongitude = 1, gpsLatitude = 2, temp_col = None\<rparr>]\<rparr>)
   = Inr \<lparr>index_name = Some ''timestamp'', rows =
        [\<lparr>timestamp = 0, pm2_5 = 3, gpsLongitude = 1, gpsLatitude = 1, temp_col = None\<rparr>,
         \<lparr>timestamp = 0, pm2_5 = 15, gpsLongitude = 1, gpsLatitude = 2, temp_col = None\<rparr>]\<rparr>"
    by (simp add: snd_average_duplicates index_name_error_timestamp groupby_mean_groups [OF g]
        mean_row_def mean_single mean_two round64_1 round64_numeral)
  have keys: "one_row_per_key \<lparr>index_name = Some ''timestamp'', rows =
        [\<lparr>timestamp = 0, pm2_5 = 3, gpsLongitude = 1, gpsLatitude = 1, temp_col = None\<rparr>,
         \<lparr>timestamp = 0, pm2_5 = 15, gpsLongitude = 1, gpsLatitude = 2, temp_col = None\<rparr>]\<rparr>"
    by code_simp
  from average_duplicates_second_call [OF first keys] first keys show ?thesis
    by simp
qed

text \<open>
  Claim C2 (the primary table is deduplicated by construction).  The claim says that after
  construction the caller's table holds one averaged row per key and that the value arrays
  of the dataset are taken from it.  \<open>prep_pm_gps\<close> calls \<open>average_duplicates\<close> and drops the
  frame it returns, so the table is floored and gains the tuple column, and keeps every
  row.  Two readings of minute 1 and minute 2 at the same position, with mass values 10 and
  20 and a snapshot duration of 15 minutes, stay two rows of the table and two entries of
  \<open>pm_values\<close>, where the averager returns the single row with the mean 15.
\<close>

theorem prep_pm_gps_keeps_duplicates:
  "fst (Dataset_init
      \<lparr>index_name = Some ''timestamp'', rows =
        [\<lparr>timestamp = timedelta64_m 1, pm2_5 = 10, gpsLongitude = 1, gpsLatitude = 2,
          temp_col = None\<rparr>,
         \<lparr>timestamp = timedelta64_m 2, pm2_5 = 20, gpsLongitude = 1, gpsLatitude = 2,
          temp_col = None\<rparr>]\<rparr>
      15 None None None)
   = \<lparr>index_name = Some ''timestamp'', rows =
       [\<lparr>timestamp = 0, pm2_5 = 10, gpsLongitude = 1, gpsLatitude = 2, temp_col = Some (2, 1)\<rparr>,
        \<lparr>timestamp = 0, pm2_5 = 20, gpsLongitude = 1, gpsLatitude = 2, temp_col = Some (2, 1)\<rparr>]\<rparr>
   \<and> map_sum id pm_values (snd (Dataset_init
      \<lparr>index_name = Some ''timestamp'', rows =
        [\<lparr>timestamp = timedelta64_m 1, pm2_5 = 10, gpsLongitude = 1, gpsLatitude = 2,
          temp_col = None\<rparr>,
         \<lparr>timestamp = timedelta64_m 2, pm2_5 = 20, gpsLongitude = 1, gpsLatitude = 2,
          temp_col = None\<rparr>]\<rparr>
      15 None None None))
   = Inr [10, 20]
   \<and> snd (average_duplicates
      \<lparr>index_name = Some ''timestamp'', rows =
        [\<lparr>timestamp = 0, pm2_5 = 10, gpsLongitude = 1, gpsLatitude = 2, temp_col = None\<rparr>,
         \<lparr>timestamp = 0, pm2_5 = 20, gpsLongitude = 1, gpsLatitude = 2, temp_col = None\<rparr>]\<rparr>)
   = Inr \<lparr>index_name = Some ''timestamp'', rows =
       [\<lparr>timestamp = 0, pm2_5 = 15, gpsLongitude = 1, gpsLatitude = 2, temp_col = None\<rparr>]\<rparr>"
proof -
  have g: "map (\<lambda>k. (fst k, filter (\<lambda>r. row_key r = k)
        [\<lparr>timestamp = 0, pm2_5 = 10, gpsLongitude = 1, gpsLatitude = 2, temp_col = None\<rparr>,
         \<lparr>timestamp = 0, pm2_5 = 20, gpsLongitude = 1, gpsLatitude = 2, temp_col = None\<rparr>]))
      (sort (remdups (map row_key
        [\<lparr>timestamp = 0, pm2_5 = 10, gpsLongitude = 1, gpsLatitude = 2, temp_col = None\<rparr>,
         \<lparr>timestamp = 0, pm2_5 = 20, gpsLongitude = 1, gpsLatitude = 2, temp_col = None\<rparr>])))
    = [(0, [\<lparr>timestamp = 0, pm2_5 = 10, gpsLongitude = 1, gpsLatitude = 2, temp_col = None\<rparr>,
            \<lparr>timestamp = 0, pm2_5 = 20, gpsLongitude = 1, gpsLatitude = 2, temp_col = None\<rparr>])]"
    by code_simp
  have averaged: "snd (average_duplicates
      \<lparr>index_name = Some ''timestamp'', rows =
        [\<lparr>timestamp = 0, pm2_5 = 10, gpsLongitude = 1, gpsLatitude = 2, temp_col = None\<rparr>,
         \<lparr>timestamp = 0, pm2_5 = 20, gpsLongitude = 1, gpsLatitude = 2, temp_col = None\<rparr>]\<rparr>)
   = Inr \<lparr>index_name = Some ''timestamp'', rows =
       [\<lparr>timestamp = 0, pm2_5 = 15, gpsLongitude = 1, gpsLatitude = 2, temp_col = None\<rparr>]\<rparr>"
    by (simp add: snd_average_duplicates index_name_error_timestamp groupby_mean_groups [OF g]
        mean_row_def mean_two round64_1 round64_numeral)
  have "(15::int) \<noteq> 0"
    by simp
  note init = Dataset_init_timestamp [OF this]
  have table: "fst (Dataset_init
      \<lparr>index_name = Some ''timestamp'', rows =
        [\<lparr>timestamp = timedelta64_m 1, pm2_5 = 10, gpsLongitude = 1, gpsLatitude = 2,
          temp_col = None\<rparr>,
         \<lparr>timestamp = timedelta64_m 2, pm2_5 = 20, gpsLongitude = 1, gpsLatitude = 2,
          temp_col = None\<rparr>]\<rparr>
      15 None None None)
   = \<lparr>index_name = Some ''timestamp'', rows =
       [\<lparr>timestamp = 0, pm2_5 = 10, gpsLongitude = 1, gpsLatitude = 2, temp_col = Some (2, 1)\<rparr>,
        \<lparr>timestamp = 0, pm2_5 = 20, gpsLongitude = 1, gpsLatitude = 2, temp_col = Some (2, 1)\<rparr>]\<rparr>"
    unfolding init by code_simp
  have pm: "map_sum id pm_values (snd (Dataset_init
      \<lparr>index_name = Some ''timestamp'', rows =
        [\<lparr>timestamp = timedelta64_m 1, pm2_5 = 10, gpsLongitude = 1, gpsLatitude = 2,
          temp_col = None\<rparr>,
         \<lparr>timestamp = timedelta64_m 2, pm2_5 = 20, gpsLongitude = 1, gpsLatitude = 2,
          temp_col = None\<rparr>]\<rparr>
      15 None None None))
   = Inr [10, 20]"
    unfolding init by code_simp
  from table pm averaged show ?thesis
    by (simp only: simp_thms)
qed

section \<open>Results: batch segmenter\<close>

text \<open>
  Claim C3 (batch integrity).  The claim says that snapshots of one batch are never further
  apart than the threshold and that snapshots of different batches are.
  \<open>split_snapshot_indices_to_batches\<close> returns the position \<open>i\<close> of a gap between snapshot
  \<open>i\<close> and snapshot \<open>i + 1\<close>, and \<open>np.split\<close> cuts in front of position \<open>i\<close>: the two
  snapshots around the gap stay together.  For readings at minutes 0, 1, 30, 60, 61 and a
  duration of 15 minutes the floored index is 0, 0, 30, 60, 60, and the one batch kept holds
  the snapshots \<open>(1,2)\<close> and \<open>(2,5)\<close>, 30 minutes apart.  The same happens on the snapshots
  \<open>(0,2), (2,3), (3,5)\<close> that bound the three runs of that index exactly.
\<close>

theorem split_to_batches_keeps_gap_inside_batch:
  "snd (Dataset_init
      \<lparr>index_name = Some ''timestamp'', rows =
        [\<lparr>timestamp = timedelta64_m 0, pm2_5 = 1, gpsLongitude = 1, gpsLatitude = 2,
          temp_col = None\<rparr>,
         \<lparr>timestamp = timedelta64_m 1, pm2_5 = 2, gpsLongitude = 3, gpsLatitude = 4,
          temp_col = None\<rparr>,
         \<lparr>timestamp = timedelta64_m 30, pm2_5 = 3, gpsLongitude = 1, gpsLatitude = 2,
          temp_col = None\<rparr>,
         \<lparr>timestamp = timedelta64_m 60, pm2_5 = 4, gpsLongitude = 1, gpsLatitude = 2,
          temp_col = None\<rparr>,
         \<lparr>timestamp = timedelta64_m 61, pm2_5 = 5, gpsLongitude = 3, gpsLatitude = 4,
          temp_col = None\<rparr>]\<rparr>
      15 None None None)
   = Inr \<lparr>pm_values = [1, 2, 3, 4, 5],
        gps_values = [(1, 2), (3, 4), (1, 2), (1, 2), (3, 4)],
        weather_values = None, time_values = None,
        pm_gps_idx = [[(1, 2), (2, 5)]],
        timestamps = [[Some 0, Some (timedelta64_m 50)]], weather_idx = []\<rparr>
   \<and> timedelta64_m 15 < snapshot_gap (map timedelta64_m [0, 0, 30, 60, 60]) (1, 2) (2, 5)
   \<and> map_sum id pm_gps_idx
        (split_to_batches [] [] None None [(0, 2), (2, 3), (3, 5)]
           (map (\<lambda>m. Some (timedelta64_m m)) [0, 30, 60]) []
           (map timedelta64_m [0, 0, 30, 60, 60]) 15)
       = Inr [[(2, 3), (3, 5)]]
   \<and> timedelta64_m 15 < snapshot_gap (map timedelta64_m [0, 0, 30, 60, 60]) (2, 3) (3, 5)"
proof -
  have "(15::int) \<noteq> 0"
    by simp
  note init = Dataset_init_timestamp [OF this]
  show ?thesis
    unfolding init by code_simp
qed

text \<open>
  The first part of claim C3 does hold: \<open>remove_unit_batches\<close> deletes exactly the batches
  with at most one snapshot, so every batch of a constructed dataset has two or more.
\<close>

lemma delete_loop_append:
  "delete_loop ys is = Inr r \<Longrightarrow> delete_loop (ys @ zs) is = Inr (r @ zs)"
proof (induction "is" arbitrary: ys)
  case Nil
  then show ?case by simp
next
  case (Cons i "is")
  from Cons.prems obtain ys' where ys': "del_at ys i = Inr ys'" "delete_loop ys' is = Inr r"
    by (auto split: sum.splits)
  from ys'(1) have "i < length ys" "ys' = take i ys @ drop (Suc i) ys"
    by (auto simp: del_at_def split: if_splits)
  then have "del_at (ys @ zs) i = Inr (ys' @ zs)"
    by (simp add: del_at_def)
  with Cons.IH [OF ys'(2)] show ?case by simp
qed

lemma delete_loop_filter:
  "delete_loop xs (rev (filter (\<lambda>i. P (xs ! i)) [0..<length xs]))
     = Inr (filter (\<lambda>x. \<not> P x) xs)"
proof (induction xs rule: rev_induct)
  case Nil
  then show ?case by simp
next
  case (snoc y ys)
  have pos: "filter (\<lambda>i. P ((ys @ [y]) ! i)) [0..<length ys]
      = filter (\<lambda>i. P (ys ! i)) [0..<length ys]"
    by (rule filter_cong) (simp_all add: nth_append)
  show ?case
  proof (cases "P y")
    case True
    have "del_at (ys @ [y]) (length ys) = Inr ys"
      by (simp add: del_at_def)
    then show ?thesis
      using True snoc.IH by (simp add: pos)
  next
    case False
    from delete_loop_append [OF snoc.IH, of "[y]"] False show ?thesis
      by (simp add: pos)
  qed
qed

lemma delete_unit_batches:
  "delete_indices xs (find_indices_of_unit_batches xs) = Inr (filter (\<lambda>b. \<not> length b \<le> 1) xs)"
proof -
  have "sorted (find_indices_of_unit_batches xs)"
    by (simp add: find_indices_of_unit_batches_def sorted_wrt_filter)
  then have "sort (find_indices_of_unit_batches xs) = find_indices_of_unit_batches xs"
    by (simp add: sort_key_id_if_sorted)
  then have "delete_indices xs (find_indices_of_unit_batches xs)
      = delete_loop xs (rev (find_indices_of_unit_batches xs))"
    by (simp add: delete_indices_def)
  also have "\<dots> = Inr (filter (\<lambda>b. \<not> length b \<le> 1) xs)"
    unfolding find_indices_of_unit_batches_def
    by (rule delete_loop_filter [of xs "\<lambda>b. length b \<le> 1"])
  finally show ?thesis .
qed

lemma remove_unit_batches_two_snapshots:
  assumes "remove_unit_batches self = Inr ds" and "b \<in> set (pm_gps_idx ds)"
  shows "2 \<le> length b"
proof -
  from assms(1) have "delete_indices (pm_gps_idx self)
      (find_indices_of_unit_batches (pm_gps_idx self)) = Inr (pm_gps_idx ds)"
    unfolding remove_unit_batches_def Let_def
    by (auto split: sum.splits option.splits if_splits)
  then have "pm_gps_idx ds = filter (\<lambda>b. \<not> length b \<le> 1) (pm_gps_idx self)"
    by (simp add: delete_unit_batches)
  with assms(2) show ?thesis by auto
qed

lemma init_batches_have_two_snapshots:
  assumes "snd (Dataset_init pm sm w mtw dtv) = Inr ds" and "b \<in> set (pm_gps_idx ds)"
  shows "2 \<le> length b"
proof -
  from assms(1) obtain df where after: "init_after_prep df sm w mtw dtv = Inr ds"
    by (auto simp: Dataset_init_def split: prod.splits option.splits)
  then obtain pv gv wv tv p t wi index where
    "split_to_batches pv gv wv tv p t wi index sm = Inr ds"
    unfolding init_after_prep_def Let_def
    by (auto split: sum.splits option.splits prod.splits)
  then obtain self where "remove_unit_batches self = Inr ds"
    unfolding split_to_batches_def by (auto split: sum.splits)
  then show ?thesis using assms(2) by (rule remove_unit_batches_two_snapshots)
qed

section \<open>Results: indexing\<close>

text \<open>
  Claim C10 (keys of another type).  A key that is neither an \<open>int\<close> nor a \<open>slice\<close>, such as
  a numpy integer, a string or a tuple, fails both \<open>isinstance\<close> tests; \<open>__getitem__\<close> ends
  without a \<open>return\<close> and the caller receives \<open>None\<close>, with no error.
\<close>

theorem getitem_other_key_returns_None:
  "getitem self (KNumpyInt n) = Inr PyNone \<and> getitem self (KStr s) = Inr PyNone
   \<and> getitem self (KTuple t) = Inr PyNone"
  by simp

section \<open>Results: construction\<close>

lemma timedelta_le_NaT: "timedelta_le a None = False"
  by (simp add: timedelta_le_def split: option.split)

lemma map_result_length: "map_result f xs = Inr ys \<Longrightarrow> length ys = length xs"
  by (induction xs arbitrary: ys) (auto split: sum.splits)

lemma np_mask_all_False: "\<forall>b\<in>set bs. \<not> b \<Longrightarrow> np_mask xs bs = []"
  by (auto simp: np_mask_def filter_empty_conv dest: set_zip_rightD)

lemma weather_available_mask_NaT:
  assumes "weather_available_mask wi ts wiv None = Inr bs"
  shows "\<forall>b\<in>set bs. \<not> b"
  using assms
  by (auto simp: weather_available_mask_def timedelta_le_NaT split: sum.splits)

lemma remove_snapshots_without_weather_NaT:
  assumes "remove_snapshots_without_weather p ts wi wiv None = Inr r"
  shows "r = ([], [], [])"
  using assms weather_available_mask_NaT [of wi ts wiv]
  by (auto simp: remove_snapshots_without_weather_def np_mask_all_False split: sum.splits)

lemma split_to_batches_no_snapshots:
  assumes "tv = None \<or> tv = Some []"
  shows "split_to_batches pv gv wv tv [] [] [] index sm =
     Inr \<lparr>pm_values = pv, gps_values = gv, weather_values = wv,
          time_values = map_option (\<lambda>_. []) tv,
          pm_gps_idx = [], timestamps = [], weather_idx = []\<rparr>"
  using assms
  by (auto simp: split_to_batches_def split_snapshot_indices_to_batches_def np_take_def
      np_nonzero_def np_split_def py_slice_def remove_unit_batches_def
      find_indices_of_unit_batches_def delete_indices_def del_at_def)




text \<open>
  Claim C5 (weather without \<open>minutes_to_weather\<close>), as the claim states it: construction
  fails at once with a validation error.  \<open>__init__\<close> has no such test.  The default \<open>None\<close>
  reaches \<open>np.timedelta64(None, 'm')\<close>, which is \<open>NaT\<close>; every comparison with it is False, so
  the gate removes every snapshot and construction completes: here on two readings and one
  weather reading, with a dataset of no batches.
\<close>

theorem init_without_minutes_to_weather_completes:
  "snd (Dataset_init
      \<lparr>index_name = Some ''timestamp'', rows =
        [\<lparr>timestamp = timedelta64_m 0, pm2_5 = 1, gpsLongitude = 1, gpsLatitude = 2,
          temp_col = None\<rparr>,
         \<lparr>timestamp = timedelta64_m 1, pm2_5 = 2, gpsLongitude = 1, gpsLatitude = 2,
          temp_col = None\<rparr>]\<rparr>
      15 (Some [(timedelta64_m 0, [20])]) None None)
    = Inr \<lparr>pm_values = [1, 2], gps_values = [(1, 2), (1, 2)], weather_values = Some [[20]],
           time_values = None, pm_gps_idx = [], timestamps = [], weather_idx = []\<rparr>"
proof -
  have "(15::int) \<noteq> 0"
    by simp
  note init = Dataset_init_timestamp [OF this]
  show ?thesis
    unfolding init by code_simp
qed

text \<open>
  Claim C5, amended: with a weather table and no \<open>minutes_to_weather\<close> nothing validates the
  configuration; whenever construction completes, no snapshot has passed the weather gate
  and the dataset has length 0.
\<close>

theorem init_without_minutes_to_weather:
  assumes "snd (Dataset_init pm_gps snapshot_minutes (Some weather) None datetime_to_vec) = Inr ds"
  shows "Dataset_len ds = 0 \<and> pm_gps_idx ds = [] \<and> timestamps ds = [] \<and> weather_idx ds = []"
proof -
  obtain df where
    after: "init_after_prep df snapshot_minutes (Some weather) None datetime_to_vec = Inr ds"
    using assms by (auto simp: Dataset_init_def split: prod.splits option.splits)
  define index where "index = map timestamp (rows df)"
  define idx0 where "idx0 = comp_snapshot_indices index snapshot_minutes"
  define ts0 where "ts0 = comp_snapshot_timestamps idx0 index"
  obtain wi where wi: "find_nearest (map fst weather) ts0 = Inr wi"
    using after
    by (auto simp: init_after_prep_def Let_def index_def idx0_def ts0_def split: sum.splits)
  obtain r where r: "remove_snapshots_without_weather idx0 ts0 wi (map fst weather) None = Inr r"
    using after wi
    by (auto simp: init_after_prep_def Let_def index_def idx0_def ts0_def split: sum.splits)
  then have r_eq: "r = ([], [], [])"
    by (rule remove_snapshots_without_weather_NaT)
  define tv where "tv = (case datetime_to_vec of None \<Rightarrow> None | Some f \<Rightarrow> Some ([] :: rat list list))"
  have tv: "(case datetime_to_vec of None \<Rightarrow> Inr None
             | Some f \<Rightarrow> map_sum id Some (map_timestamps_to_features [] f)) = Inr tv"
    by (simp add: tv_def map_timestamps_to_features_def split: option.split)
  have tv_cases: "tv = None \<or> tv = Some []"
    by (simp add: tv_def split: option.split)
  have "init_after_prep df snapshot_minutes (Some weather) None datetime_to_vec
      = split_to_batches (map pm2_5 (rows df)) (map (\<lambda>r. (gpsLongitude r, gpsLatitude r)) (rows df))
          (Some (map snd weather)) tv [] [] [] index snapshot_minutes"
    using wi r r_eq tv
    by (simp add: init_after_prep_def Let_def index_def idx0_def ts0_def)
  with after show ?thesis
    using split_to_batches_no_snapshots [OF tv_cases] by (auto simp: Dataset_len_def)
qed

theorem init_without_minutes_to_weather_witness:
  "snd (Dataset_init
      \<lparr>index_name = Some ''timestamp'', rows =
        [\<lparr>timestamp = timedelta64_m 0, pm2_5 = 1, gpsLongitude = 1, gpsLatitude = 2,
          temp_col = None\<rparr>,
         \<lparr>timestamp = timedelta64_m 1, pm2_5 = 2, gpsLongitude = 1, gpsLatitude = 2,
          temp_col = None\<rparr>]\<rparr>
      15 (Some [(timedelta64_m 0, [20])]) None None)
    = Inr \<lparr>pm_values = [1, 2], gps_values = [(1, 2), (1, 2)], weather_values = Some [[20]],
           time_values = None, pm_gps_idx = [], timestamps = [], weather_idx = []\<rparr>
   \<and> Dataset_len \<lparr>pm_values = [1, 2], gps_values = [(1, 2), (1, 2)], weather_values = Some [[20]],
           time_values = None, pm_gps_idx = [], timestamps = [], weather_idx = []\<rparr> = 0"
proof -
  have "(15::int) \<noteq> 0"
    by simp
  note init = Dataset_init_timestamp [OF this]
  have run: "snd (Dataset_init
      \<lparr>index_name = Some ''timestamp'', rows =
        [\<lparr>timestamp = timedelta64_m 0, pm2_5 = 1, gpsLongitude = 1, gpsLatitude = 2,
          temp_col = None\<rparr>,
         \<lparr>timestamp = timedelta64_m 1, pm2_5 = 2, gpsLongitude = 1, gpsLatitude = 2,
          temp_col = None\<rparr>]\<rparr>
      15 (Some [(timedelta64_m 0, [20])]) None None)
    = Inr \<lparr>pm_values = [1, 2], gps_values = [(1, 2), (1, 2)], weather_values = Some [[20]],
           time_values = None, pm_gps_idx = [], timestamps = [], weather_idx = []\<rparr>"
    unfolding init by code_simp
  from init_without_minutes_to_weather [OF run] run show ?thesis
    by simp
qed


text \<open>
  Without a weather table construction from an empty table raises as well when the index of
  the table has no name (\<open>set_index(None)\<close> at the end of \<open>average_duplicates\<close>), and when the
  snapshot duration is zero (\<open>index.floor('0min')\<close>).
\<close>

lemma init_empty_table_unnamed_index_raises:
  "snd (Dataset_init \<lparr>index_name = None, rows = []\<rparr> 15 None None None) = Inl KeyError"
  by code_simp

lemma init_empty_table_zero_duration_raises:
  "snd (Dataset_init \<lparr>index_name = Some ''timestamp'', rows = []\<rparr> 0 None None None)
     = Inl ZeroDivisionError"
  by code_simp



section \<open>Results: nearest-weather matcher\<close>

lemma bisect_left_sorted:
  assumes "sorted arr" and "lo \<le> hi" and "hi \<le> length arr"
    and "\<forall>i<lo. arr ! i < v"
    and "\<forall>i. hi \<le> i \<and> i < length arr \<longrightarrow> v \<le> arr ! i"
  shows "lo \<le> bisect_left arr (Some v) lo hi \<and> bisect_left arr (Some v) lo hi \<le> hi
       \<and> (\<forall>i<bisect_left arr (Some v) lo hi. arr ! i < v)
       \<and> (\<forall>i. bisect_left arr (Some v) lo hi \<le> i \<and> i < length arr \<longrightarrow> v \<le> arr ! i)"
  using assms
proof (induction arr "Some v" lo hi rule: bisect_left.induct)
  case (1 arr lo hi)
  show ?case
  proof (cases "lo < hi")
    case False
    then have "bisect_left arr (Some v) lo hi = lo"
      by (subst bisect_left.simps) simp
    moreover have "lo = hi" using False "1.prems"(2) by simp
    ultimately show ?thesis using "1.prems" by simp
  next
    case True
    define mid where "mid = lo + (hi - lo) div 2"
    have mid: "lo \<le> mid" "mid < hi" using True by (simp_all add: mid_def)
    show ?thesis
    proof (cases "arr ! mid < v")
      case less: True
      then have eq: "bisect_left arr (Some v) lo hi = bisect_left arr (Some v) (mid + 1) hi"
        using True by (subst bisect_left.simps) (simp add: mid_def datetime_less_def)
      have below: "\<forall>i<mid + 1. arr ! i < v"
      proof (intro allI impI)
        fix i assume "i < mid + 1"
        then have "i \<le> mid" by simp
        moreover have "mid < length arr" using mid "1.prems"(3) by simp
        ultimately have "arr ! i \<le> arr ! mid"
          using "1.prems"(1) by (simp add: sorted_nth_mono)
        with less show "arr ! i < v" by simp
      qed
      have "datetime_less (Some (arr ! (lo + (hi - lo) div 2))) (Some v)"
        using less by (simp add: mid_def datetime_less_def)
      from "1.hyps"(1) [OF True this "1.prems"(1) _ "1.prems"(3) _ "1.prems"(5)] below mid
      have "mid + 1 \<le> bisect_left arr (Some v) (mid + 1) hi
          \<and> bisect_left arr (Some v) (mid + 1) hi \<le> hi
          \<and> (\<forall>i<bisect_left arr (Some v) (mid + 1) hi. arr ! i < v)
          \<and> (\<forall>i. bisect_left arr (Some v) (mid + 1) hi \<le> i \<and> i < length arr \<longrightarrow> v \<le> arr ! i)"
        by (simp add: mid_def)
      then show ?thesis using eq mid by simp
    next
      case geq: False
      then have eq: "bisect_left arr (Some v) lo hi = bisect_left arr (Some v) lo mid"
        using True by (subst bisect_left.simps) (simp add: mid_def datetime_less_def)
      have above: "\<forall>i. mid \<le> i \<and> i < length arr \<longrightarrow> v \<le> arr ! i"
      proof (intro allI impI)
        fix i assume "mid \<le> i \<and> i < length arr"
        then have "arr ! mid \<le> arr ! i"
          using "1.prems"(1) by (simp add: sorted_nth_mono)
        with geq show "v \<le> arr ! i" by simp
      qed
      have "\<not> datetime_less (Some (arr ! (lo + (hi - lo) div 2))) (Some v)"
        using geq by (simp add: mid_def datetime_less_def)
      from "1.hyps"(2) [OF True this "1.prems"(1) _ _ "1.prems"(4)] above mid "1.prems"(3)
      have "lo \<le> bisect_left arr (Some v) lo mid
          \<and> bisect_left arr (Some v) lo mid \<le> mid
          \<and> (\<forall>i<bisect_left arr (Some v) lo mid. arr ! i < v)
          \<and> (\<forall>i. bisect_left arr (Some v) lo mid \<le> i \<and> i < length arr \<longrightarrow> v \<le> arr ! i)"
        by (simp add: mid_def)
      then show ?thesis using eq mid by simp
    qed
  qed
qed

lemma searchsorted_sorted:
  assumes "sorted arr"
  shows "searchsorted arr (Some v) \<le> length arr
       \<and> (\<forall>i<searchsorted arr (Some v). arr ! i < v)
       \<and> (\<forall>i. searchsorted arr (Some v) \<le> i \<and> i < length arr \<longrightarrow> v \<le> arr ! i)"
  using bisect_left_sorted [of arr 0 "length arr" v] assms
  by (simp add: searchsorted_def)


lemma np_get_nat: "i < length arr \<Longrightarrow> np_get arr (int i) = Inr (arr ! i)"
  by (simp add: np_get_def)

lemma np_get_minus_one: "arr \<noteq> [] \<Longrightarrow> np_get arr (- 1) = Inr (arr ! (length arr - 1))"
  by (cases arr) (simp_all add: np_get_def nat_add_distrib)

lemma wrap64_in_range: "- (2 ^ 63) \<le> z \<Longrightarrow> z < 2 ^ 63 \<Longrightarrow> wrap64 z = z"
  by (simp add: wrap64_def)

lemma abs_diff_in_range:
  assumes "within_span a" and "within_span x"
  shows "abs_diff a (Some x) = Some \<bar>a - x\<bar>"
proof -
  have lo: "- (2 ^ 63) < a - x" and hi: "a - x < 2 ^ 63"
    using assms by (simp_all add: within_span_def)
  then have "wrap64 (a - x) = a - x"
    by (simp add: wrap64_in_range)
  with lo show ?thesis
    by (simp add: abs_diff_def)
qed

lemma find_nearest1_sorted:
  assumes srt: "sorted arr" and ne: "arr \<noteq> []"
    and guard: "hd arr < last arr \<or> v \<le> last arr"
    and span: "list_all within_span arr" and span_v: "within_span v"
  shows "\<exists>i. find_nearest1 arr (Some v) = Inr (int i) \<and> nearest_index arr v i
             \<and> later_on_tie arr v i"
proof -
  define n where "n = length arr"
  define r where "r = searchsorted arr (Some v)"
  have n: "0 < n" using ne by (simp add: n_def)
  have ad: "abs_diff (arr ! k) (Some v) = Some \<bar>arr ! k - v\<bar>" if "k < n" for k
  proof (rule abs_diff_in_range [OF _ span_v])
    show "within_span (arr ! k)"
      using span that by (simp add: list_all_length n_def)
  qed
  have r: "r \<le> n" "\<forall>i<r. arr ! i < v" "\<forall>i. r \<le> i \<and> i < n \<longrightarrow> v \<le> arr ! i"
    using searchsorted_sorted [OF srt, of v] by (simp_all add: r_def n_def)
  have mono: "\<And>i j. i \<le> j \<Longrightarrow> j < n \<Longrightarrow> arr ! i \<le> arr ! j"
    using srt by (simp add: sorted_nth_mono n_def)
  have hd_last: "hd arr = arr ! 0" "last arr = arr ! (n - 1)"
    using ne by (simp_all add: hd_conv_nth last_conv_nth n_def)
  have tie: "later_on_tie arr v i" if "i = r \<or> (\<forall>j. Suc j < n \<longrightarrow> \<not> halfway arr v j)" for i
  proof -
    have "halfway arr v j \<longrightarrow> i = Suc j" if j: "Suc j < n" for j
    proof
      assume h: "halfway arr v j"
      then have "arr ! j < v" "v < arr ! Suc j" by (simp_all add: halfway_def)
      have "j < r"
      proof (rule ccontr)
        assume "\<not> j < r"
        then have "v \<le> arr ! j" using r(3) j by simp
        with \<open>arr ! j < v\<close> show False by simp
      qed
      moreover have "r \<le> Suc j"
      proof (rule ccontr)
        assume "\<not> r \<le> Suc j"
        then have "arr ! Suc j < v" using r(2) by simp
        with \<open>v < arr ! Suc j\<close> show False by simp
      qed
      ultimately have "r = Suc j" by simp
      with that h \<open>i = r \<or> (\<forall>j. Suc j < n \<longrightarrow> \<not> halfway arr v j)\<close> j show "i = Suc j" by auto
    qed
    then show ?thesis
      by (auto simp: later_on_tie_def list_all_iff n_def)
  qed
  have nearest: "nearest_index arr v i"
    if "i < n" and "\<forall>j<n. \<bar>arr ! i - v\<bar> \<le> \<bar>arr ! j - v\<bar>" for i
    using that by (auto simp: nearest_index_def list_all_iff in_set_conv_nth n_def)
  consider (first) "r = 0" | (inner) "0 < r" "r < n" | (beyond) "r = n"
    using r(1) by linarith
  then show ?thesis
  proof cases
    case first
    have le: "v \<le> arr ! 0" using r(3) first n by simp
    have "arr ! 0 \<le> arr ! (n - 1)" using mono [of 0 "n - 1"] n by simp
    then have "\<not> timedelta_less (abs_diff (arr ! (n - 1)) (Some v)) (abs_diff (arr ! 0) (Some v))"
      using le n by (simp add: timedelta_less_def ad)
    then have "find_nearest1 arr (Some v) = Inr (int 0)"
      using first n ne np_get_minus_one [OF ne] np_get_nat [of 0 arr]
      by (simp add: find_nearest1_def r_def [symmetric] n_def [symmetric])
    moreover have "\<forall>j<n. \<bar>arr ! 0 - v\<bar> \<le> \<bar>arr ! j - v\<bar>"
    proof (intro allI impI)
      fix j assume "j < n"
      then have "arr ! 0 \<le> arr ! j" using mono [of 0 j] by simp
      with le show "\<bar>arr ! 0 - v\<bar> \<le> \<bar>arr ! j - v\<bar>" by simp
    qed
    ultimately show ?thesis
      using nearest [of 0] tie [of 0] first n by blast
  next
    case inner
    define left where "left = arr ! (r - 1)"
    define right where "right = arr ! r"
    have l: "left < v" using r(2) inner by (simp add: left_def)
    have rr: "v \<le> right" using r(3) inner by (simp add: right_def)
    have gl: "np_get arr (int r - 1) = Inr left"
      using np_get_nat [of "r - 1" arr] inner by (simp add: left_def n_def of_nat_diff)
    have gr: "np_get arr (int r mod int n) = Inr right"
      using np_get_nat [of r arr] inner by (simp add: right_def n_def)
    have al: "abs_diff left (Some v) = Some \<bar>left - v\<bar>"
      unfolding left_def using inner by (intro ad) simp
    have ar: "abs_diff right (Some v) = Some \<bar>right - v\<bar>"
      unfolding right_def using inner by (intro ad) simp
    have below: "\<forall>j<r. \<bar>left - v\<bar> \<le> \<bar>arr ! j - v\<bar>"
    proof (intro allI impI)
      fix j assume "j < r"
      then have "arr ! j \<le> left" using mono [of j "r - 1"] inner by (simp add: left_def)
      with l show "\<bar>left - v\<bar> \<le> \<bar>arr ! j - v\<bar>" by simp
    qed
    have above: "\<forall>j. r \<le> j \<and> j < n \<longrightarrow> \<bar>right - v\<bar> \<le> \<bar>arr ! j - v\<bar>"
    proof (intro allI impI)
      fix j assume "r \<le> j \<and> j < n"
      then have "right \<le> arr ! j" using mono [of r j] by (simp add: right_def)
      with rr show "\<bar>right - v\<bar> \<le> \<bar>arr ! j - v\<bar>" by simp
    qed
    show ?thesis
    proof (cases "v - left < right - v")
      case True
      then have "timedelta_less (abs_diff left (Some v)) (abs_diff right (Some v))"
        using l rr by (simp add: timedelta_less_def al ar)
      then have res: "find_nearest1 arr (Some v) = Inr (int (r - 1))"
        using gl gr inner
        by (simp add: find_nearest1_def r_def [symmetric] n_def [symmetric] of_nat_diff)
      have "\<forall>j<n. \<bar>arr ! (r - 1) - v\<bar> \<le> \<bar>arr ! j - v\<bar>"
      proof (intro allI impI)
        fix j assume j: "j < n"
        show "\<bar>arr ! (r - 1) - v\<bar> \<le> \<bar>arr ! j - v\<bar>"
        proof (cases "j < r")
          case True
          then show ?thesis using below by (simp add: left_def)
        next
          case False
          then have "\<bar>right - v\<bar> \<le> \<bar>arr ! j - v\<bar>" using above j by simp
          with \<open>v - left < right - v\<close> l rr show ?thesis by (simp add: left_def)
        qed
      qed
      moreover have "\<forall>j. Suc j < n \<longrightarrow> \<not> halfway arr v j"
      proof (intro allI impI notI)
        fix j assume j: "Suc j < n" and h: "halfway arr v j"
        then have "arr ! j < v" "v < arr ! Suc j" "v - arr ! j = arr ! Suc j - v"
          by (simp_all add: halfway_def)
        have "j < r"
        proof (rule ccontr)
          assume "\<not> j < r"
          then have "v \<le> arr ! j" using r(3) j by simp
          with \<open>arr ! j < v\<close> show False by simp
        qed
        moreover have "r \<le> Suc j"
        proof (rule ccontr)
          assume "\<not> r \<le> Suc j"
          then have "arr ! Suc j < v" using r(2) by simp
          with \<open>v < arr ! Suc j\<close> show False by simp
        qed
        ultimately have "r = Suc j" by simp
        then have "left = arr ! j" "right = arr ! Suc j" by (simp_all add: left_def right_def)
        with \<open>v - arr ! j = arr ! Suc j - v\<close> \<open>v - left < right - v\<close> show False by simp
      qed
      ultimately show ?thesis
        using res nearest [of "r - 1"] tie [of "r - 1"] inner
        by (intro exI [of _ "r - 1"]) auto
    next
      case False
      then have "\<not> timedelta_less (abs_diff left (Some v)) (abs_diff right (Some v))"
        using l rr by (simp add: timedelta_less_def al ar)
      then have res: "find_nearest1 arr (Some v) = Inr (int r)"
        using gl gr
        by (simp add: find_nearest1_def r_def [symmetric] n_def [symmetric])
      have "\<forall>j<n. \<bar>arr ! r - v\<bar> \<le> \<bar>arr ! j - v\<bar>"
      proof (intro allI impI)
        fix j assume j: "j < n"
        show "\<bar>arr ! r - v\<bar> \<le> \<bar>arr ! j - v\<bar>"
        proof (cases "j < r")
          case True
          then have "\<bar>left - v\<bar> \<le> \<bar>arr ! j - v\<bar>" using below by simp
          with False l rr show ?thesis by (simp add: right_def)
        next
          case False
          then show ?thesis using above j by (simp add: right_def)
        qed
      qed
      then show ?thesis
        using res nearest [of r] tie [of r] inner by auto
    qed
  next
    case beyond
    have lt: "arr ! (n - 1) < v" using r(2) beyond n by simp
    then have "\<not> v \<le> last arr" by (simp add: hd_last)
    then have strict: "arr ! 0 < arr ! (n - 1)" using guard by (simp add: hd_last)
    then have "timedelta_less (abs_diff (arr ! (n - 1)) (Some v)) (abs_diff (arr ! 0) (Some v))"
      using lt n by (simp add: timedelta_less_def ad)
    moreover have "np_get arr (int n - 1) = Inr (arr ! (n - 1))"
      using np_get_nat [of "n - 1" arr] n by (simp add: n_def of_nat_diff)
    moreover have "np_get arr (int n mod int n) = Inr (arr ! 0)"
      using np_get_nat [of 0 arr] n by (simp add: n_def)
    ultimately have res: "find_nearest1 arr (Some v) = Inr (int (n - 1))"
      using beyond n
      by (simp add: find_nearest1_def r_def [symmetric] n_def [symmetric] of_nat_diff)
    have "\<forall>j<n. \<bar>arr ! (n - 1) - v\<bar> \<le> \<bar>arr ! j - v\<bar>"
    proof (intro allI impI)
      fix j assume "j < n"
      then have "arr ! j \<le> arr ! (n - 1)" using mono [of j "n - 1"] by simp
      with lt show "\<bar>arr ! (n - 1) - v\<bar> \<le> \<bar>arr ! j - v\<bar>" by simp
    qed
    moreover have "\<forall>j. Suc j < n \<longrightarrow> \<not> halfway arr v j"
    proof (intro allI impI notI)
      fix j assume j: "Suc j < n" and h: "halfway arr v j"
      then have "v < arr ! Suc j" by (simp add: halfway_def)
      moreover have "arr ! Suc j < v" using r(2) beyond j by simp
      ultimately show False by simp
    qed
    ultimately show ?thesis
      using res nearest [of "n - 1"] tie [of "n - 1"] n
      by (intro exI [of _ "n - 1"]) auto
  qed
qed

text \<open>
  Claim C6 (nearest weather reading, ties to the earlier one), as the claim states it.  The
  left neighbour is chosen only when it is strictly closer: a query at 10:15 between weather
  readings at 10:00 and 10:30 gets position 1, the later reading.
\<close>

theorem find_nearest_tie_returns_later:
  "find_nearest (map timedelta64_m [600, 630]) [Some (timedelta64_m 615)] = Inr [1]
   \<and> halfway (map timedelta64_m [600, 630]) (timedelta64_m 615) 0
   \<and> \<not> earlier_on_tie (map timedelta64_m [600, 630]) (timedelta64_m 615) 1"
  by code_simp

text \<open>
  Where every weather time is the same (a single reading, for instance) and the query is
  later, both candidates are that one time, the comparison is False and the position
  returned is the length of the array, which is no position of it.  The amended claim
  leaves this case out.
\<close>

lemma find_nearest_one_reading_beyond:
  "find_nearest [timedelta64_m 600] [Some (timedelta64_m 620)] = Inr [1]"
  by code_simp

text \<open>
  The distances are differences of \<open>datetime64[ns]\<close> values, computed in 64 bits.  For times
  further apart than \<open>2 ^ 63\<close> nanoseconds the difference wraps around: between weather
  readings 2 ns before the epoch and \<open>2 ^ 63 - 1\<close> ns after it, a query 1 ns before the epoch
  gets position 1, the far reading.  The amended claim bounds the times.
\<close>

lemma find_nearest_wraps_beyond_span:
  "find_nearest [- 2, 2 ^ 63 - 1] [Some (- 1)] = Inr [1]
   \<and> \<not> nearest_index [- 2, 2 ^ 63 - 1] (- 1) 1"
  by code_simp

text \<open>
  Claim C6, amended: for a sorted, non-empty array of weather times that are not all
  equal, or queries not later than the last weather time, and with every weather time and
  every query less than \<open>2 ^ 62\<close> nanoseconds (about 146 years) away from the epoch,
  \<open>find_nearest\<close> returns for every query the position of a weather time at the least
  absolute distance, and for a query exactly halfway between two neighbouring weather times
  the position of the later one.
\<close>

theorem find_nearest_sorted:
  assumes "sorted arr" and "arr \<noteq> []"
    and "hd arr < last arr \<or> list_all (\<lambda>v. v \<le> last arr) vs"
    and "list_all within_span arr" and "list_all within_span vs"
  shows "\<exists>res. find_nearest arr (map Some vs) = Inr (map int res)
           \<and> list_all2 (\<lambda>v i. nearest_index arr v i \<and> later_on_tie arr v i) vs res"
  using assms(3,5)
proof (induction vs)
  case Nil
  then show ?case by (simp add: find_nearest_def)
next
  case (Cons v vs)
  from Cons.prems have "hd arr < last arr \<or> v \<le> last arr"
    by auto
  moreover from Cons.prems have "within_span v"
    by simp
  ultimately obtain i where i: "find_nearest1 arr (Some v) = Inr (int i)"
      "nearest_index arr v i" "later_on_tie arr v i"
    using find_nearest1_sorted [OF assms(1,2) _ assms(4), of v] by blast
  from Cons.prems have "hd arr < last arr \<or> list_all (\<lambda>v. v \<le> last arr) vs"
    and "list_all within_span vs"
    by auto
  from Cons.IH [OF this]
  obtain res where res: "find_nearest arr (map Some vs) = Inr (map int res)"
      "list_all2 (\<lambda>v i. nearest_index arr v i \<and> later_on_tie arr v i) vs res"
    by blast
  have "find_nearest arr (map Some (v # vs)) = Inr (map int (i # res))"
    using i(1) res(1) by (simp add: find_nearest_def)
  moreover have "list_all2 (\<lambda>v i. nearest_index arr v i \<and> later_on_tie arr v i) (v # vs) (i # res)"
    using i(2,3) res(2) by simp
  ultimately show ?case by blast
qed

theorem find_nearest_sorted_witness:
  "sorted (map timedelta64_m [600, 630]) \<and> map timedelta64_m [600, 630] \<noteq> []
   \<and> hd (map timedelta64_m [600, 630]) < last (map timedelta64_m [600, 630])
   \<and> list_all within_span (map timedelta64_m [600, 630])
   \<and> list_all within_span (map timedelta64_m [620, 615, 590])
   \<and> find_nearest (map timedelta64_m [600, 630]) (map Some (map timedelta64_m [620, 615, 590]))
       = Inr [1, 1, 0]
   \<and> (\<exists>res. find_nearest (map timedelta64_m [600, 630]) (map Some (map timedelta64_m [620, 615, 590]))
           = Inr (map int res)
         \<and> list_all2 (\<lambda>v i. nearest_index (map timedelta64_m [600, 630]) v i
                           \<and> later_on_tie (map timedelta64_m [600, 630]) v i)
             (map timedelta64_m [620, 615, 590]) res)"
proof -
  have h1: "sorted (map timedelta64_m [600, 630])"
    by (simp add: timedelta64_m_def ns_per_minute_def)
  have h2: "map timedelta64_m [600, 630] \<noteq> []"
    by simp
  have h3: "hd (map timedelta64_m [600, 630]) < last (map timedelta64_m [600, 630])"
    by (simp add: timedelta64_m_def ns_per_minute_def)
  have h4: "list_all within_span (map timedelta64_m [600, 630])"
    by code_simp
  have h5: "list_all within_span (map timedelta64_m [620, 615, 590])"
    by code_simp
  have run: "find_nearest (map timedelta64_m [600, 630])
      (map Some (map timedelta64_m [620, 615, 590])) = Inr [1, 1, 0]"
    by code_simp
  from find_nearest_sorted [OF h1 h2 disjI1 [OF h3] h4 h5] h1 h2 h3 h4 h5 run
  show ?thesis by blast
qed

section \<open>Results: alignment of the parallel arrays\<close>

lemma np_get_Inr_iff:
  "np_get arr i = Inr x \<longleftrightarrow>
     - int (length arr) \<le> i \<and> i < int (length arr)
     \<and> x = arr ! nat (if i < 0 then i + int (length arr) else i)"
  by (auto simp: np_get_def Let_def)

lemma np_get_Inl_iff:
  "np_get arr i = Inl e \<longleftrightarrow>
     e = IndexError \<and> (i < - int (length arr) \<or> int (length arr) \<le> i)"
  by (auto simp: np_get_def Let_def)

lemma map_result_Inr_set:
  "map_result f xs = Inr ys \<Longrightarrow> x \<in> set xs \<Longrightarrow> \<exists>y. f x = Inr y"
  by (induction xs arbitrary: ys) (auto split: sum.splits)

lemma map_result_Inr_map:
  "(\<And>x. x \<in> set xs \<Longrightarrow> f x = Inr (g x)) \<Longrightarrow> map_result f xs = Inr (map g xs)"
  by (induction xs) auto

lemma np_take_valid:
  assumes "np_take arr idx = Inr xs" and "i \<in> set idx"
  shows "- int (length arr) \<le> i \<and> i < int (length arr)"
  using map_result_Inr_set [of "np_get arr" idx xs i] assms
  by (auto simp: np_take_def np_get_Inr_iff)

lemma np_take_Inr:
  assumes "\<And>i. i \<in> set idx \<Longrightarrow> - int (length arr) \<le> i \<and> i < int (length arr)"
  shows "np_take arr idx
       = Inr (map (\<lambda>i. arr ! nat (if i < 0 then i + int (length arr) else i)) idx)"
  unfolding np_take_def
  by (rule map_result_Inr_map) (use assms in \<open>simp add: np_get_Inr_iff\<close>)

lemma set_np_mask: "set (np_mask xs bs) \<subseteq> set xs"
  by (auto simp: np_mask_def dest: set_zip_leftD)

lemma length_np_mask:
  "length xs = length bs \<Longrightarrow> length (np_mask xs bs) = length (filter id bs)"
proof (induction xs bs rule: list_induct2)
  case Nil
  then show ?case by (simp add: np_mask_def)
next
  case (Cons x xs b bs)
  then show ?case by (simp add: np_mask_def)
qed

lemma map_length_np_split:
  "length xs = length ys \<Longrightarrow> map length (np_split xs s) = map length (np_split ys s)"
  by (simp add: np_split_def py_slice_def comp_def case_prod_unfold)

lemma set_np_split: "b \<in> set (np_split xs s) \<Longrightarrow> set b \<subseteq> set xs"
  by (auto simp: np_split_def py_slice_def dest!: in_set_takeD in_set_dropD)

lemma del_at_map: "del_at (map f xs) i = map_sum id (map f) (del_at xs i)"
  by (simp add: del_at_def take_map drop_map)

lemma delete_loop_map: "delete_loop (map f xs) is = map_sum id (map f) (delete_loop xs is)"
proof (induction "is" arbitrary: xs)
  case Nil
  then show ?case by simp
next
  case (Cons i "is")
  show ?case
  proof (cases "del_at xs i")
    case (Inl e)
    then show ?thesis by (simp add: del_at_map)
  next
    case (Inr ys)
    then show ?thesis using Cons.IH [of ys] by (simp add: del_at_map)
  qed
qed

lemma delete_indices_map:
  "delete_indices (map f xs) idx = map_sum id (map f) (delete_indices xs idx)"
  by (simp add: delete_indices_def delete_loop_map)

lemma set_del_at: "del_at xs i = Inr ys \<Longrightarrow> set ys \<subseteq> set xs"
  by (auto simp: del_at_def split: if_splits dest: in_set_takeD in_set_dropD)

lemma set_delete_loop: "delete_loop xs is = Inr ys \<Longrightarrow> set ys \<subseteq> set xs"
proof (induction "is" arbitrary: xs)
  case Nil
  then show ?case by simp
next
  case (Cons i "is")
  then obtain zs where zs: "del_at xs i = Inr zs" "delete_loop zs is = Inr ys"
    by (auto split: sum.splits)
  then have "set ys \<subseteq> set zs" using Cons.IH by simp
  with set_del_at [OF zs(1)] show ?case by blast
qed

lemma set_delete_indices: "delete_indices xs idx = Inr ys \<Longrightarrow> set ys \<subseteq> set xs"
  by (simp add: delete_indices_def set_delete_loop)

lemma delete_indices_lockstep:
  assumes "delete_indices xs idx = Inr xs'" and "delete_indices ys idx = Inr ys'"
    and "map length xs = map length ys"
  shows "map length xs' = map length ys'"
proof -
  have "delete_indices (map length xs) idx = Inr (map length xs')"
    using assms(1) by (simp add: delete_indices_map)
  moreover have "delete_indices (map length ys) idx = Inr (map length ys')"
    using assms(2) by (simp add: delete_indices_map)
  ultimately show ?thesis using assms(3) by simp
qed


lemma remove_unit_batches_Inr:
  assumes "remove_unit_batches self = Inr ds"
  shows "\<exists>p' t' tv' w'.
      delete_indices (pm_gps_idx self) (find_indices_of_unit_batches (pm_gps_idx self)) = Inr p'
    \<and> delete_indices (timestamps self) (find_indices_of_unit_batches (pm_gps_idx self)) = Inr t'
    \<and> (case time_values self of None \<Rightarrow> tv' = None
        | Some tv \<Rightarrow> \<exists>x. delete_indices tv (find_indices_of_unit_batches (pm_gps_idx self)) = Inr x
                      \<and> tv' = Some x)
    \<and> (if weather_values self \<noteq> None
        then delete_indices (weather_idx self) (find_indices_of_unit_batches (pm_gps_idx self))
               = Inr w'
        else w' = weather_idx self)
    \<and> ds = self\<lparr>pm_gps_idx := p', timestamps := t', time_values := tv', weather_idx := w'\<rparr>"
proof -
  let ?I = "find_indices_of_unit_batches (pm_gps_idx self)"
  from assms obtain p' where p': "delete_indices (pm_gps_idx self) ?I = Inr p'"
    unfolding remove_unit_batches_def Let_def by (cases "delete_indices (pm_gps_idx self) ?I") auto
  from assms p' obtain t' where t': "delete_indices (timestamps self) ?I = Inr t'"
    unfolding remove_unit_batches_def Let_def by (cases "delete_indices (timestamps self) ?I") auto
  show ?thesis
  proof (cases "time_values self")
    case None
    show ?thesis
    proof (cases "weather_values self")
      case wn: None
      from assms p' t' None wn
      have "ds = self\<lparr>pm_gps_idx := p', timestamps := t', time_values := None,
                     weather_idx := weather_idx self\<rparr>"
        unfolding remove_unit_batches_def Let_def by auto
      with p' t' None wn show ?thesis by auto
    next
      case ws: (Some wv)
      from assms p' t' None ws obtain w' where w': "delete_indices (weather_idx self) ?I = Inr w'"
        unfolding remove_unit_batches_def Let_def
        by (cases "delete_indices (weather_idx self) ?I") auto
      from assms p' t' None ws w'
      have "ds = self\<lparr>pm_gps_idx := p', timestamps := t', time_values := None,
                     weather_idx := w'\<rparr>"
        unfolding remove_unit_batches_def Let_def by auto
      with p' t' None ws w' show ?thesis by auto
    qed
  next
    case (Some tv)
    from assms p' t' Some obtain x where x: "delete_indices tv ?I = Inr x"
      unfolding remove_unit_batches_def Let_def by (cases "delete_indices tv ?I") auto
    show ?thesis
    proof (cases "weather_values self")
      case wn: None
      from assms p' t' Some x wn
      have "ds = self\<lparr>pm_gps_idx := p', timestamps := t', time_values := Some x,
                     weather_idx := weather_idx self\<rparr>"
        unfolding remove_unit_batches_def Let_def by auto
      with p' t' Some x wn show ?thesis by auto
    next
      case ws: (Some wv)
      from assms p' t' Some x ws obtain w' where w': "delete_indices (weather_idx self) ?I = Inr w'"
        unfolding remove_unit_batches_def Let_def
        by (cases "delete_indices (weather_idx self) ?I") auto
      from assms p' t' Some x ws w'
      have "ds = self\<lparr>pm_gps_idx := p', timestamps := t', time_values := Some x,
                     weather_idx := w'\<rparr>"
        unfolding remove_unit_batches_def Let_def by auto
      with p' t' Some x ws w' show ?thesis by auto
    qed
  qed
qed


lemma remove_unit_batches_lockstep:
  assumes run: "remove_unit_batches self = Inr ds"
    and p: "map length (pm_gps_idx self) = map length (timestamps self)"
    and w: "weather_values self \<noteq> None \<Longrightarrow>
            map length (weather_idx self) = map length (timestamps self)"
    and t: "\<And>tv. time_values self = Some tv \<Longrightarrow> map length tv = map length (timestamps self)"
  shows "pm_values ds = pm_values self \<and> gps_values ds = gps_values self
       \<and> weather_values ds = weather_values self
       \<and> (time_values ds = None \<longleftrightarrow> time_values self = None)
       \<and> map length (pm_gps_idx ds) = map length (timestamps ds)
       \<and> (weather_values ds \<noteq> None \<longrightarrow>
            map length (weather_idx ds) = map length (timestamps ds))
       \<and> (\<forall>tv. time_values ds = Some tv \<longrightarrow> map length tv = map length (timestamps ds))
       \<and> set (weather_idx ds) \<subseteq> set (weather_idx self)"
proof -
  let ?I = "find_indices_of_unit_batches (pm_gps_idx self)"
  from remove_unit_batches_Inr [OF run] obtain p' t' tv' w' where
    p': "delete_indices (pm_gps_idx self) ?I = Inr p'" and
    t': "delete_indices (timestamps self) ?I = Inr t'" and
    tv': "case time_values self of None \<Rightarrow> tv' = None
          | Some tv \<Rightarrow> \<exists>x. delete_indices tv ?I = Inr x \<and> tv' = Some x" and
    w': "if weather_values self \<noteq> None then delete_indices (weather_idx self) ?I = Inr w'
         else w' = weather_idx self" and
    ds: "ds = self\<lparr>pm_gps_idx := p', timestamps := t', time_values := tv', weather_idx := w'\<rparr>"
    by blast
  have pt: "map length p' = map length t'"
    using p' t' p by (rule delete_indices_lockstep)
  have wt: "map length w' = map length t'" if "weather_values self \<noteq> None"
  proof -
    have "delete_indices (weather_idx self) ?I = Inr w'"
      using w' that by simp
    then show ?thesis using t' w [OF that] by (rule delete_indices_lockstep)
  qed
  have tt: "map length x = map length t'" if "tv' = Some x" for x
  proof (cases "time_values self")
    case None
    with tv' that show ?thesis by simp
  next
    case (Some tv)
    with tv' that have "delete_indices tv ?I = Inr x" by auto
    from this t' t [OF Some] show ?thesis by (rule delete_indices_lockstep)
  qed
  have tn: "tv' = None \<longleftrightarrow> time_values self = None"
    using tv' by (cases "time_values self") auto
  have ws: "set w' \<subseteq> set (weather_idx self)"
  proof (cases "weather_values self \<noteq> None")
    case True
    with w' have "delete_indices (weather_idx self) ?I = Inr w'" by simp
    then show ?thesis by (rule set_delete_indices)
  next
    case False
    with w' show ?thesis by simp
  qed
  have "pm_values ds = pm_values self" "gps_values ds = gps_values self"
    "weather_values ds = weather_values self" "time_values ds = tv'"
    "pm_gps_idx ds = p'" "timestamps ds = t'" "weather_idx ds = w'"
    by (simp_all add: ds)
  then show ?thesis
    using pt wt tt tn ws by simp
qed


lemma split_to_batches_lockstep:
  assumes run: "split_to_batches pv gv wv tv p t wi index sm = Inr ds"
    and p: "length p = length t"
    and w: "wv \<noteq> None \<Longrightarrow> length wi = length t"
    and tl: "\<And>x. tv = Some x \<Longrightarrow> length x = length t"
  shows "pm_values ds = pv \<and> gps_values ds = gv \<and> weather_values ds = wv
       \<and> (time_values ds = None \<longleftrightarrow> tv = None)
       \<and> map length (pm_gps_idx ds) = map length (timestamps ds)
       \<and> (wv \<noteq> None \<longrightarrow> map length (weather_idx ds) = map length (timestamps ds))
       \<and> (\<forall>x. time_values ds = Some x \<longrightarrow> map length x = map length (timestamps ds))
       \<and> (\<forall>b\<in>set (weather_idx ds). set b \<subseteq> set wi)"
proof -
  from run obtain s where s: "split_snapshot_indices_to_batches index p sm = Inr s"
    unfolding split_to_batches_def
    by (cases "split_snapshot_indices_to_batches index p sm") auto
  define self where "self =
     \<lparr>pm_values = pv, gps_values = gv, weather_values = wv,
      time_values = map_option (\<lambda>tv. np_split tv s) tv,
      pm_gps_idx = np_split p s, timestamps = np_split t s,
      weather_idx = (if wv \<noteq> None then np_split wi s else [])\<rparr>"
  have sel: "pm_values self = pv" "gps_values self = gv" "weather_values self = wv"
    "time_values self = map_option (\<lambda>tv. np_split tv s) tv"
    "pm_gps_idx self = np_split p s" "timestamps self = np_split t s"
    "weather_idx self = (if wv \<noteq> None then np_split wi s else [])"
    by (simp_all add: self_def)
  have "split_to_batches pv gv wv tv p t wi index sm = remove_unit_batches self"
    unfolding split_to_batches_def self_def by (simp add: s)
  with run have rub: "remove_unit_batches self = Inr ds"
    by simp
  have 1: "map length (pm_gps_idx self) = map length (timestamps self)"
    using map_length_np_split [OF p, of s] by (simp add: sel)
  have 2: "map length (weather_idx self) = map length (timestamps self)"
    if "weather_values self \<noteq> None"
  proof -
    from that have wv: "wv \<noteq> None" by (simp add: sel)
    from map_length_np_split [OF w [OF wv], of s] wv show ?thesis
      by (simp add: sel)
  qed
  have 3: "map length x = map length (timestamps self)" if "time_values self = Some x" for x
  proof -
    from that obtain y where y: "tv = Some y" "x = np_split y s"
      by (auto simp: sel)
    from map_length_np_split [OF tl [OF y(1)], of s] y(2) show ?thesis
      by (simp add: sel)
  qed
  have sub: "\<forall>b\<in>set (weather_idx self). set b \<subseteq> set wi"
  proof
    fix b assume "b \<in> set (weather_idx self)"
    then have "b \<in> set (np_split wi s)"
      by (cases "wv \<noteq> None") (simp_all add: sel)
    then show "set b \<subseteq> set wi" by (rule set_np_split)
  qed
  note L = remove_unit_batches_lockstep [OF rub 1 2 3]
  have tn: "time_values self = None \<longleftrightarrow> tv = None"
    by (simp add: sel)
  have "\<forall>b\<in>set (weather_idx ds). set b \<subseteq> set wi"
    using L sub by blast
  then show ?thesis
    using L tn by (simp add: sel)
qed


lemma remove_snapshots_without_weather_lockstep:
  assumes run: "remove_snapshots_without_weather p t wi wiv m = Inr (p', t', wi')"
    and p: "length p = length t" and w: "length wi = length t"
  shows "length p' = length t' \<and> length wi' = length t' \<and> set wi' \<subseteq> set wi
       \<and> (\<forall>i\<in>set wi. - int (length wiv) \<le> i \<and> i < int (length wiv))"
proof -
  from run obtain bs where bs: "weather_available_mask wi t wiv m = Inr bs"
    unfolding remove_snapshots_without_weather_def
    by (cases "weather_available_mask wi t wiv m") auto
  from bs obtain ws where ws: "np_take wiv wi = Inr ws"
    unfolding weather_available_mask_def by (cases "np_take wiv wi") auto
  have "length ws = length wi"
    using ws map_result_length [of "np_get wiv" wi ws] by (simp add: np_take_def)
  moreover have "bs = map (\<lambda>(w, t). timedelta_le (abs_diff w t) (map_option timedelta64_m m))
                       (zip ws t)"
    using bs ws by (simp add: weather_available_mask_def)
  ultimately have len: "length bs = length t"
    using w by simp
  have eq: "p' = np_mask p bs" "t' = np_mask t bs" "wi' = np_mask wi bs"
    using run bs by (simp_all add: remove_snapshots_without_weather_def)
  have "length p' = length (filter id bs)" "length t' = length (filter id bs)"
    "length wi' = length (filter id bs)"
    using len p w by (simp_all add: eq length_np_mask)
  moreover have "set wi' \<subseteq> set wi"
    unfolding eq by (rule set_np_mask)
  moreover have "\<forall>i\<in>set wi. - int (length wiv) \<le> i \<and> i < int (length wiv)"
    using np_take_valid [OF ws] by blast
  ultimately show ?thesis by simp
qed

lemma init_lockstep:
  assumes "snd (Dataset_init pm sm w mtw dtv) = Inr ds"
  shows "map length (pm_gps_idx ds) = map length (timestamps ds)
       \<and> weather_values ds = map_option (map snd) w
       \<and> (w \<noteq> None \<longrightarrow> map length (weather_idx ds) = map length (timestamps ds))
       \<and> (time_values ds = None \<longleftrightarrow> dtv = None)
       \<and> (\<forall>x. time_values ds = Some x \<longrightarrow> map length x = map length (timestamps ds))
       \<and> (\<forall>wt. w = Some wt \<longrightarrow>
            (\<forall>b\<in>set (weather_idx ds). \<forall>i\<in>set b.
               - int (length wt) \<le> i \<and> i < int (length wt)))"
proof -
  from assms obtain df where after: "init_after_prep df sm w mtw dtv = Inr ds"
    by (auto simp: Dataset_init_def split: prod.splits option.splits)
  define index where "index = map timestamp (rows df)"
  define p0 where "p0 = comp_snapshot_indices index sm"
  define t0 where "t0 = comp_snapshot_timestamps p0 index"
  define W where "W = (case w of None \<Rightarrow> Inr (p0, t0, [])
       | Some wt \<Rightarrow>
           (case find_nearest (map fst wt) t0 of Inl e \<Rightarrow> Inl e
            | Inr wi0 \<Rightarrow> remove_snapshots_without_weather p0 t0 wi0 (map fst wt) mtw))"
  define T where "T = (\<lambda>t1. case dtv of None \<Rightarrow> Inr None
       | Some f \<Rightarrow> map_sum id Some (map_timestamps_to_features t1 f))"
  have unfold: "init_after_prep df sm w mtw dtv =
      (case W of Inl e \<Rightarrow> Inl e
       | Inr (p1, t1, wi1) \<Rightarrow>
           (case T t1 of Inl e \<Rightarrow> Inl e
            | Inr tvals \<Rightarrow>
                split_to_batches (map pm2_5 (rows df))
                  (map (\<lambda>r. (gpsLongitude r, gpsLatitude r)) (rows df))
                  (map_option (map snd) w) tvals p1 t1 wi1 index sm))"
    unfolding init_after_prep_def Let_def W_def T_def index_def p0_def t0_def ..
  from after obtain p1 t1 wi1 where W1: "W = Inr (p1, t1, wi1)"
    unfolding unfold by (cases W) auto
  from after W1 obtain tvals where T1: "T t1 = Inr tvals"
    unfolding unfold by (cases "T t1") auto
  from after W1 T1 have split:
    "split_to_batches (map pm2_5 (rows df))
                  (map (\<lambda>r. (gpsLongitude r, gpsLatitude r)) (rows df))
       (map_option (map snd) w) tvals p1 t1 wi1 index sm = Inr ds"
    unfolding unfold by simp
  have len0: "length p0 = length t0"
    by (simp add: t0_def comp_snapshot_timestamps_def)
  have gate: "length p1 = length t1
      \<and> (\<forall>wt. w = Some wt \<longrightarrow> length wi1 = length t1
            \<and> (\<forall>i\<in>set wi1. - int (length wt) \<le> i \<and> i < int (length wt)))"
  proof (cases w)
    case None
    with W1 len0 show ?thesis by (simp add: W_def)
  next
    case (Some wt)
    from W1 Some obtain wi0 where wi0: "find_nearest (map fst wt) t0 = Inr wi0"
      unfolding W_def by (cases "find_nearest (map fst wt) t0") auto
    with W1 Some
    have r: "remove_snapshots_without_weather p0 t0 wi0 (map fst wt) mtw = Inr (p1, t1, wi1)"
      by (simp add: W_def)
    have "length wi0 = length t0"
      using wi0 map_result_length [of "find_nearest1 (map fst wt)" t0 wi0]
      by (simp add: find_nearest_def)
    from remove_snapshots_without_weather_lockstep [OF r len0 this] Some
    show ?thesis by auto
  qed
  have tlen: "length x = length t1" if "tvals = Some x" for x
  proof (cases dtv)
    case None
    with T1 that show ?thesis by (simp add: T_def)
  next
    case (Some f)
    with T1 that have "map_result f t1 = Inr x"
      by (cases "map_result f t1") (auto simp: T_def map_timestamps_to_features_def)
    then show ?thesis by (rule map_result_length)
  qed
  have tnone: "tvals = None \<longleftrightarrow> dtv = None"
  proof (cases dtv)
    case None
    with T1 show ?thesis by (simp add: T_def)
  next
    case (Some f)
    with T1 show ?thesis
      by (cases "map_timestamps_to_features t1 f") (auto simp: T_def)
  qed
  have wlen: "length wi1 = length t1" if "map_option (map snd) w \<noteq> None"
    using that gate by (cases w) auto
  from gate have plen: "length p1 = length t1" by simp
  note L = split_to_batches_lockstep [OF split plen wlen tlen]
  have valid: "\<forall>b\<in>set (weather_idx ds). \<forall>i\<in>set b.
      - int (length wt) \<le> i \<and> i < int (length wt)" if "w = Some wt" for wt
  proof (intro ballI)
    fix b i assume "b \<in> set (weather_idx ds)" "i \<in> set b"
    with L have "i \<in> set wi1" by blast
    with gate that show "- int (length wt) \<le> i \<and> i < int (length wt)" by blast
  qed
  have wnone: "map_option (map snd) w \<noteq> None \<longleftrightarrow> w \<noteq> None"
    by (cases w) simp_all
  from L tnone wnone valid show ?thesis
    by simp
qed

lemma lockstep_length: "map length xs = map length ys \<Longrightarrow> length xs = length ys"
  by (rule map_eq_imp_length_eq)

text \<open>
  Claim C4 (alignment).  The weather gate filters \<open>pm_gps_idx\<close>, \<open>timestamps\<close> and
  \<open>weather_idx\<close> with one mask, so arrays of one length leave it with one length; the
  calendar vectors are computed from the gated timestamps; all arrays are split at the same
  positions and lose the same batches.  In every dataset constructed with a weather table
  the lists of snapshot bounds, representative timestamps, weather positions and, where a
  calendar function is given, calendar vectors have the same number of batches and the same
  number of entries in every batch.
\<close>

theorem weather_gating_lockstep:
  "(remove_snapshots_without_weather p t wi wiv m = Inr (p', t', wi') \<longrightarrow>
      length p = length t \<longrightarrow> length wi = length t \<longrightarrow>
      length p' = length t' \<and> length wi' = length t')
   \<and> (snd (Dataset_init pm_gps snapshot_minutes (Some weather) minutes_to_weather datetime_to_vec)
        = Inr ds \<longrightarrow>
        map length (pm_gps_idx ds) = map length (timestamps ds)
      \<and> map length (weather_idx ds) = map length (timestamps ds)
      \<and> (datetime_to_vec \<noteq> None \<longrightarrow>
           (\<exists>x. time_values ds = Some x \<and> map length x = map length (timestamps ds))))"
proof (intro conjI impI)
  assume "remove_snapshots_without_weather p t wi wiv m = Inr (p', t', wi')"
    and "length p = length t" and "length wi = length t"
  from remove_snapshots_without_weather_lockstep [OF this]
  show "length p' = length t'" and "length wi' = length t'"
    by simp_all
next
  assume run: "snd (Dataset_init pm_gps snapshot_minutes (Some weather) minutes_to_weather
      datetime_to_vec) = Inr ds"
  note L = init_lockstep [OF run]
  from L show "map length (pm_gps_idx ds) = map length (timestamps ds)"
    by simp
  from L show "map length (weather_idx ds) = map length (timestamps ds)"
    by simp
  assume "datetime_to_vec \<noteq> None"
  with L have "time_values ds \<noteq> None" by simp
  then obtain x where "time_values ds = Some x" by auto
  with L show "\<exists>x. time_values ds = Some x \<and> map length x = map length (timestamps ds)"
    by simp
qed

theorem weather_gating_lockstep_witness:
  "remove_snapshots_without_weather [(0, 1), (1, 3), (3, 6)]
       (map (\<lambda>m. Some (timedelta64_m m)) [0, 7, 25]) [0, 0, 1] (map timedelta64_m [0, 30]) (Some 6)
     = Inr ([(0, 1), (3, 6)], map (\<lambda>m. Some (timedelta64_m m)) [0, 25], [0, 1])
   \<and> length [(0, 1), (3, 6) :: nat \<times> nat] = length (map (\<lambda>m. Some (timedelta64_m m)) [0, 25])
   \<and> length [0, 1 :: int] = length (map (\<lambda>m. Some (timedelta64_m m)) [0, 25])
   \<and> snd (Dataset_init example_pm_gps 15 (Some example_weather) (Some 6) (Some (\<lambda>t. Inr [7])))
     = Inr example_dataset
   \<and> map length (pm_gps_idx example_dataset) = map length (timestamps example_dataset)
   \<and> map length (weather_idx example_dataset) = map length (timestamps example_dataset)
   \<and> (\<exists>x. time_values example_dataset = Some x
          \<and> map length x = map length (timestamps example_dataset))"
proof -
  have gate: "remove_snapshots_without_weather [(0, 1), (1, 3), (3, 6)]
       (map (\<lambda>m. Some (timedelta64_m m)) [0, 7, 25]) [0, 0, 1] (map timedelta64_m [0, 30]) (Some 6)
     = Inr ([(0, 1), (3, 6)], map (\<lambda>m. Some (timedelta64_m m)) [0, 25], [0, 1])"
    by code_simp
  have name: "index_name_error (index_name example_pm_gps) = None"
    by code_simp
  have "(15::int) \<noteq> 0"
    by simp
  note init = Dataset_init_no_error [OF this name]
  have run: "snd (Dataset_init example_pm_gps 15 (Some example_weather) (Some 6)
      (Some (\<lambda>t. Inr [7]))) = Inr example_dataset"
    unfolding init by code_simp
  from weather_gating_lockstep [of "[(0, 1), (1, 3), (3, 6)]"
      "map (\<lambda>m. Some (timedelta64_m m)) [0, 7, 25]" "[0, 0, 1]" "map timedelta64_m [0, 30]"
      "Some 6" "[(0, 1), (3, 6)]" "map (\<lambda>m. Some (timedelta64_m m)) [0, 25]" "[0, 1]"
      example_pm_gps 15 example_weather "Some 6" "Some (\<lambda>t. Inr [7])" example_dataset]
    gate run
  show ?thesis by simp
qed

section \<open>Results: indexing by position\<close>

lemma init_lockstep_facts:
  assumes "snd (Dataset_init pm sm w mtw dtv) = Inr ds"
  shows "length (pm_gps_idx ds) = length (timestamps ds)"
    and "weather_values ds = map_option (map snd) w"
    and "w \<noteq> None \<Longrightarrow> length (weather_idx ds) = length (timestamps ds)"
    and "time_values ds = Some x \<Longrightarrow> length x = length (timestamps ds)"
    and "w = Some wt \<Longrightarrow> b \<in> set (weather_idx ds) \<Longrightarrow> i \<in> set b \<Longrightarrow>
           - int (length wt) \<le> i \<and> i < int (length wt)"
proof -
  note L = init_lockstep [OF assms]
  from L have "map length (pm_gps_idx ds) = map length (timestamps ds)" by (rule conjunct1)
  then show "length (pm_gps_idx ds) = length (timestamps ds)" by (rule lockstep_length)
  from L show "weather_values ds = map_option (map snd) w" by blast
  {
    assume "w \<noteq> None"
    with L have "map length (weather_idx ds) = map length (timestamps ds)" by blast
    then show "length (weather_idx ds) = length (timestamps ds)" by (rule lockstep_length)
  }
  {
    assume "time_values ds = Some x"
    with L have "map length x = map length (timestamps ds)" by blast
    then show "length x = length (timestamps ds)" by (rule lockstep_length)
  }
  {
    assume "w = Some wt" "b \<in> set (weather_idx ds)" "i \<in> set b"
    with L show "- int (length wt) \<le> i \<and> i < int (length wt)" by blast
  }
qed

text \<open>
  Claim C9 (bounds of \<open>get(i)\<close>), as the claim states it: every integer index outside the
  range of the retained batches fails with an \<open>IndexError\<close>, never with a silent null.  In
  the dataset of the worked example, which has one batch, the index 1 given as a numpy
  integer is no Python \<open>int\<close> and gets \<open>None\<close>, and the index \<open>-1\<close> gets the last batch.
\<close>

theorem getitem_outside_range_without_error:
  "snd (Dataset_init example_pm_gps 15 (Some example_weather) (Some 6) (Some (\<lambda>t. Inr [7])))
     = Inr example_dataset
   \<and> Dataset_len example_dataset = 1
   \<and> getitem example_dataset (KNumpyInt 1) = Inr PyNone
   \<and> getitem example_dataset (KInt (- 1)) = Inr (ABatch (batch_at example_dataset 0))"
proof -
  have name: "index_name_error (index_name example_pm_gps) = None"
    by code_simp
  have "(15::int) \<noteq> 0"
    by simp
  note init = Dataset_init_no_error [OF this name]
  show ?thesis
    unfolding init by code_simp
qed

text \<open>
  Claim C9, amended: for a constructed dataset with \<open>n\<close> batches a key of the Python type
  \<open>int\<close> outside the range of Python list indexing, \<open>[-n, n)\<close>, raises \<open>IndexError\<close> at the first
  lookup \<open>self.timestamps[key]\<close>; a key \<open>0 \<le> i < n\<close> returns the \<open>i\<close>-th batch, and a negative
  key in range counts from the end as Python indices do.  Inside the range no lookup fails:
  the lists are aligned and every stored weather position is a position of the weather table.
\<close>

theorem getitem_int_checks_range:
  assumes run: "snd (Dataset_init pm_gps snapshot_minutes weather minutes_to_weather
      datetime_to_vec) = Inr ds"
  shows "(k < - int (Dataset_len ds) \<or> int (Dataset_len ds) \<le> k \<longrightarrow>
            getitem ds (KInt k) = Inl IndexError)
       \<and> (0 \<le> k \<and> k < int (Dataset_len ds) \<longrightarrow>
            getitem ds (KInt k) = Inr (ABatch (batch_at ds (nat k))))
       \<and> (- int (Dataset_len ds) \<le> k \<and> k < 0 \<longrightarrow>
            getitem ds (KInt k) = Inr (ABatch (batch_at ds (nat (k + int (Dataset_len ds))))))"
proof -
  define n where "n = length (timestamps ds)"
  note F = init_lockstep_facts [OF run]
  have out: "getitem_int ds k = Inl IndexError" if "k < - int n \<or> int n \<le> k"
  proof -
    have "np_get (timestamps ds) k = Inl IndexError"
      using that by (simp add: np_get_Inl_iff n_def)
    then show ?thesis by (simp add: getitem_int_def)
  qed
  have inside: "getitem_int ds k = Inr (batch_at ds j)"
    if k: "- int n \<le> k" "k < int n" and j: "j = nat (if k < 0 then k + int n else k)" for j
  proof -
    have jn: "j < n" using k j by auto
    have get: "np_get xs k = Inr (xs ! j)" if "length xs = n" for xs :: "'x list"
      using k j that by (simp add: np_get_Inr_iff)
    have g1: "np_get (timestamps ds) k = Inr (timestamps ds ! j)"
      by (rule get) (simp add: n_def)
    have g2: "np_get (pm_gps_idx ds) k = Inr (pm_gps_idx ds ! j)"
      by (rule get) (simp add: F(1) n_def)
    have g3: "(case weather_values ds of None \<Rightarrow> Inr None
         | Some wv \<Rightarrow>
             (case np_get (weather_idx ds) k of Inl e \<Rightarrow> Inl e
              | Inr wi \<Rightarrow> map_sum id Some (np_take wv wi)))
        = Inr (map_option
                 (\<lambda>wv. map (\<lambda>i. wv ! nat (if i < 0 then i + int (length wv) else i))
                        (weather_idx ds ! j))
                 (weather_values ds))"
    proof (cases "weather_values ds")
      case None
      then show ?thesis by simp
    next
      case (Some wv)
      with F(2) obtain wt where wt: "weather = Some wt" "wv = map snd wt"
        by (cases weather) simp_all
      have lw: "length (weather_idx ds) = n"
        using F(3) wt(1) by (simp add: n_def)
      have g: "np_get (weather_idx ds) k = Inr (weather_idx ds ! j)"
        using lw by (rule get)
      have mem: "weather_idx ds ! j \<in> set (weather_idx ds)"
        using jn lw by simp
      have "- int (length wv) \<le> i \<and> i < int (length wv)" if "i \<in> set (weather_idx ds ! j)" for i
        using F(5) [OF wt(1) mem that] wt(2) by simp
      then have "np_take wv (weather_idx ds ! j)
         = Inr (map (\<lambda>i. wv ! nat (if i < 0 then i + int (length wv) else i))
                  (weather_idx ds ! j))"
        by (rule np_take_Inr)
      with Some g show ?thesis by simp
    qed
    have g4: "(case time_values ds of None \<Rightarrow> Inr None
         | Some tv \<Rightarrow> map_sum id Some (np_get tv k))
        = Inr (map_option (\<lambda>tv. tv ! j) (time_values ds))"
    proof (cases "time_values ds")
      case None
      then show ?thesis by simp
    next
      case (Some tv)
      have "length tv = n"
        using F(4) [OF Some] by (simp add: n_def)
      then have "np_get tv k = Inr (tv ! j)"
        by (rule get)
      with Some show ?thesis by simp
    qed
    show ?thesis
      unfolding getitem_int_def g1 g2 g3 g4
      by (simp add: batch_at_def split_by_double_index_def)
  qed
  have len: "int (Dataset_len ds) = int n"
    by (simp add: Dataset_len_def n_def)
  have a: "getitem ds (KInt k) = Inl IndexError" if "k < - int n \<or> int n \<le> k"
    using out [OF that] by simp
  have b: "getitem ds (KInt k) = Inr (ABatch (batch_at ds (nat k)))" if "0 \<le> k \<and> k < int n"
    using inside [of "nat k"] that by simp
  have c: "getitem ds (KInt k) = Inr (ABatch (batch_at ds (nat (k + int n))))"
    if "- int n \<le> k \<and> k < 0"
    using inside [of "nat (k + int n)"] that by simp
  show ?thesis
    unfolding len using a b c by blast
qed

theorem getitem_int_checks_range_witness:
  "snd (Dataset_init example_pm_gps 15 (Some example_weather) (Some 6) (Some (\<lambda>t. Inr [7])))
     = Inr example_dataset
   \<and> Dataset_len example_dataset = 1
   \<and> getitem example_dataset (KInt 1) = Inl IndexError
   \<and> getitem example_dataset (KInt (- 2)) = Inl IndexError
   \<and> getitem example_dataset (KInt 0) = Inr (ABatch (batch_at example_dataset 0))
   \<and> getitem example_dataset (KInt (- 1)) = Inr (ABatch (batch_at example_dataset 0))
   \<and> batch_at example_dataset 0
     = \<lparr>batch_timestamps = [Some 0, Some (timedelta64_m 25)],
        batch_pm = [[1], [4, 5, 6]],
        batch_gps = [[(1, 2)], [(3, 4), (1, 2), (3, 4)]],
        batch_weather = Some [[20], [21]], batch_time = Some [[7], [7]]\<rparr>"
proof -
  have name: "index_name_error (index_name example_pm_gps) = None"
    by code_simp
  have "(15::int) \<noteq> 0"
    by simp
  note init = Dataset_init_no_error [OF this name]
  have run: "snd (Dataset_init example_pm_gps 15 (Some example_weather) (Some 6)
      (Some (\<lambda>t. Inr [7]))) = Inr example_dataset"
    unfolding init by code_simp
  have len: "Dataset_len example_dataset = 1"
    by (simp add: Dataset_len_def example_dataset_def)
  have b: "batch_at example_dataset 0
     = \<lparr>batch_timestamps = [Some 0, Some (timedelta64_m 25)],
        batch_pm = [[1], [4, 5, 6]],
        batch_gps = [[(1, 2)], [(3, 4), (1, 2), (3, 4)]],
        batch_weather = Some [[20], [21]], batch_time = Some [[7], [7]]\<rparr>"
    by code_simp
  from getitem_int_checks_range [OF run, of 1] len
  have 1: "getitem example_dataset (KInt 1) = Inl IndexError"
    by simp
  from getitem_int_checks_range [OF run, of "- 2"] len
  have 2: "getitem example_dataset (KInt (- 2)) = Inl IndexError"
    by simp
  from getitem_int_checks_range [OF run, of 0] len
  have 3: "getitem example_dataset (KInt 0) = Inr (ABatch (batch_at example_dataset 0))"
    by simp
  from getitem_int_checks_range [OF run, of "- 1"] len
  have 4: "getitem example_dataset (KInt (- 1)) = Inr (ABatch (batch_at example_dataset 0))"
    by simp
  from run len 1 2 3 4 b show ?thesis
    by simp
qed

end
